theory Spec2Isabelle
  imports Main "HOL-Library.Word" "HOL-Library.Sublist"
begin

unbundle bit_operations_syntax

section \<open>The name matcher of src/generic/match.c\<close>

text \<open>
  The development embeds the name-matching routines of \<^verbatim>\<open>src/generic/match.c\<close>:
  \<^verbatim>\<open>choose_thing\<close>, \<^verbatim>\<open>matched\<close>, \<^verbatim>\<open>match_obj_list\<close>, \<^verbatim>\<open>match_attr_helper\<close>,
  \<^verbatim>\<open>match_attr_list\<close>, \<^verbatim>\<open>match_player\<close>, \<^verbatim>\<open>match_aliases\<close>, \<^verbatim>\<open>parse_english\<close>,
  \<^verbatim>\<open>match_result_internal\<close> and the entry points built on it.

  Data model assumed for the C types (LP64): \<^verbatim>\<open>int\<close> is 32 bits, \<^verbatim>\<open>long\<close> and
  \<^verbatim>\<open>unsigned long\<close> are 64 bits. A \<^verbatim>\<open>dbref\<close> is an \<^verbatim>\<open>int\<close>; the counters of
  \<^verbatim>\<open>struct match_context\<close> are \<^verbatim>\<open>int\<close>s that count candidates of one call and are
  modelled as unbounded integers (they cannot reach \<open>2^31\<close> before the database does).
  C strings are modelled as \<^typ>\<open>string\<close> (the bytes before the terminating NUL).
\<close>

subsection \<open>Object references and the headers the file includes\<close>

type_synonym dbref = int
type_synonym mflags = "64 word"
type_synonym otype = "32 word"

text \<open>
  Modelled from the spec: the headers \<^verbatim>\<open>dbdefs.h\<close>, \<^verbatim>\<open>match.h\<close> and \<^verbatim>\<open>mushdb.h\<close> are
  absent. The spec reserves \<^verbatim>\<open>NOTHING\<close> and \<^verbatim>\<open>AMBIGUOUS\<close> outside the identifier space,
  calls a reference good iff it identifies a live entity, treats the type filter as a
  bitset of kinds and the option flags as a bitset. The values below are those of the
  PennMUSH headers; of the flag values only their being distinct single bits is used.
\<close>

definition NOTHING :: dbref where "NOTHING = -1"
definition AMBIGUOUS :: dbref where "AMBIGUOUS = -2"

definition TYPE_ROOM :: otype where "TYPE_ROOM = 0x1"
definition TYPE_THING :: otype where "TYPE_THING = 0x2"
definition TYPE_EXIT :: otype where "TYPE_EXIT = 0x4"
definition TYPE_PLAYER :: otype where "TYPE_PLAYER = 0x8"
definition TYPE_GARBAGE :: otype where "TYPE_GARBAGE = 0x10"
definition NOTYPE :: otype where "NOTYPE = 0xFFFF"

definition MAT_CHECK_KEYS :: mflags where "MAT_CHECK_KEYS = 0x000001"
definition MAT_GLOBAL :: mflags where "MAT_GLOBAL = 0x000002"
definition MAT_REMOTES :: mflags where "MAT_REMOTES = 0x000004"
definition MAT_NEAR :: mflags where "MAT_NEAR = 0x000008"
definition MAT_CONTROL :: mflags where "MAT_CONTROL = 0x000010"
definition MAT_ME :: mflags where "MAT_ME = 0x000020"
definition MAT_HERE :: mflags where "MAT_HERE = 0x000040"
definition MAT_ABSOLUTE :: mflags where "MAT_ABSOLUTE = 0x000080"
definition MAT_PMATCH :: mflags where "MAT_PMATCH = 0x000100"
definition MAT_PLAYER :: mflags where "MAT_PLAYER = 0x000200"
definition MAT_NEIGHBOR :: mflags where "MAT_NEIGHBOR = 0x000400"
definition MAT_POSSESSION :: mflags where "MAT_POSSESSION = 0x000800"
definition MAT_EXIT :: mflags where "MAT_EXIT = 0x001000"
definition MAT_CARRIED_EXIT :: mflags where "MAT_CARRIED_EXIT = 0x002000"
definition MAT_CONTAINER :: mflags where "MAT_CONTAINER = 0x004000"
definition MAT_REMOTE_CONTENTS :: mflags where "MAT_REMOTE_CONTENTS = 0x008000"
definition MAT_ENGLISH :: mflags where "MAT_ENGLISH = 0x010000"
definition MAT_TYPE :: mflags where "MAT_TYPE = 0x020000"
definition MAT_EXACT :: mflags where "MAT_EXACT = 0x040000"
definition MAT_CONTENTS :: mflags where "MAT_CONTENTS = 0x080000"
definition MAT_NOISY :: mflags where "MAT_NOISY = 0x100000"
definition MAT_LAST :: mflags where "MAT_LAST = 0x200000"

text \<open>
  The collaborators the matcher consumes (object database, locks, player lookup,
  attribute store) are not part of the file. They are the fields of a record that every
  function of the model takes as its first argument.

  Modelled from the spec: \<^verbatim>\<open>DOLIST\<close> and \<^verbatim>\<open>Next\<close> are absent; the spec requires of the
  entity graph that a contents or exits chain "produces a finite sequence of entity
  ids". \<open>Chain w start\<close> is the sequence \<^verbatim>\<open>start, Next(start), Next(Next(start)), ...\<close> of
  values the loop variable of \<^verbatim>\<open>DOLIST\<close> takes from \<open>start\<close> on, up to and including the
  first one that is not a good object (\<^verbatim>\<open>NOTHING\<close> at the end of a chain of the database).

  Modelled from the spec: \<^verbatim>\<open>atr_iter_get_parent\<close>, \<^verbatim>\<open>parse_dbref\<close> and
  \<^verbatim>\<open>parse_integer\<close> are absent; the spec describes the attribute store as an enumerator
  that "yields entity-id/priority pairs keyed by a naming convention under a location".
  \<open>generic_attrs w obj\<close> lists, in iteration order, for every attribute of \<open>obj\<close> that
  matches \<^verbatim>\<open>GENERIC`*\<close>, the reference decoded from its name after the first backquote
  and the integer decoded from its value.
\<close>

record world =
  db_top :: int
  Typeof :: "dbref \<Rightarrow> otype"
  Name :: "dbref \<Rightarrow> string"
  Location :: "dbref \<Rightarrow> dbref"
  Source :: "dbref \<Rightarrow> dbref"
  Zone :: "dbref \<Rightarrow> dbref"
  Contents :: "dbref \<Rightarrow> dbref"
  Exits :: "dbref \<Rightarrow> dbref"
  Chain :: "dbref \<Rightarrow> dbref list"
  MASTER_ROOM :: dbref
  BUFFER_LEN :: nat
  controls :: "dbref \<Rightarrow> dbref \<Rightarrow> bool"
  can_interact :: "dbref \<Rightarrow> dbref \<Rightarrow> bool"
  could_doit :: "dbref \<Rightarrow> dbref \<Rightarrow> bool"
  nearby :: "dbref \<Rightarrow> dbref \<Rightarrow> bool"
  Long_Fingers :: "dbref \<Rightarrow> bool"
  lookup_player :: "string \<Rightarrow> dbref"
  visible_short_page :: "dbref \<Rightarrow> string \<Rightarrow> dbref"
  parse_objid :: "string \<Rightarrow> dbref"
  check_alias :: "string \<Rightarrow> string \<Rightarrow> bool"
  Alias :: "dbref \<Rightarrow> string option"
  string_match :: "string \<Rightarrow> string \<Rightarrow> bool"
  Generic :: "dbref \<Rightarrow> bool"
  generic_attrs :: "dbref \<Rightarrow> (dbref \<times> int) list"

definition GoodObject :: "world \<Rightarrow> dbref \<Rightarrow> bool" where
  "GoodObject w x = (0 \<le> x \<and> x < db_top w)"

definition IsRoom :: "world \<Rightarrow> dbref \<Rightarrow> bool" where
  "IsRoom w x = (Typeof w x AND TYPE_ROOM \<noteq> 0)"

definition IsExit :: "world \<Rightarrow> dbref \<Rightarrow> bool" where
  "IsExit w x = (Typeof w x AND TYPE_EXIT \<noteq> 0)"

definition IsPlayer :: "world \<Rightarrow> dbref \<Rightarrow> bool" where
  "IsPlayer w x = (Typeof w x AND TYPE_PLAYER \<noteq> 0)"

definition IsGarbage :: "world \<Rightarrow> dbref \<Rightarrow> bool" where
  "IsGarbage w x = (Typeof w x AND TYPE_GARBAGE \<noteq> 0)"

definition RealGoodObject :: "world \<Rightarrow> dbref \<Rightarrow> bool" where
  "RealGoodObject w x = (GoodObject w x \<and> \<not> IsGarbage w x)"

text \<open>\<^verbatim>\<open>DOLIST(var, first)\<close>: the references the loop variable takes inside the body,
  and its value when the loop condition fails.\<close>

definition dolist :: "world \<Rightarrow> dbref \<Rightarrow> dbref list" where
  "dolist w first = takeWhile (GoodObject w) (Chain w first)"

definition dolist_end :: "world \<Rightarrow> dbref \<Rightarrow> dbref" where
  "dolist_end w first =
     (case dropWhile (GoodObject w) (Chain w first) of [] \<Rightarrow> NOTHING | t # _ \<Rightarrow> t)"

subsection \<open>C library string functions\<close>

definition tolower_ch :: "char \<Rightarrow> char" where
  "tolower_ch c =
     (case map_of (zip ''ABCDEFGHIJKLMNOPQRSTUVWXYZ'' ''abcdefghijklmnopqrstuvwxyz'') c of
        Some l \<Rightarrow> l
      | None \<Rightarrow> c)"

definition isdigit :: "char \<Rightarrow> bool" where
  "isdigit c = (c \<in> set ''0123456789'')"

definition isspace :: "char \<Rightarrow> bool" where
  "isspace c = (c \<in> {CHR '' '', CHR 0x09, CHR 0x0A, CHR 0x0B, CHR 0x0C, CHR 0x0D})"

text \<open>\<open>strcasecmp_eq a b\<close> is \<^verbatim>\<open>!strcasecmp(a, b)\<close>, \<open>strncasecmp_eq a b n\<close> is
  \<^verbatim>\<open>!strncasecmp(a, b, n)\<close>.\<close>

definition strcasecmp_eq :: "string \<Rightarrow> string \<Rightarrow> bool" where
  "strcasecmp_eq a b = (map tolower_ch a = map tolower_ch b)"

definition strncasecmp_eq :: "string \<Rightarrow> string \<Rightarrow> nat \<Rightarrow> bool" where
  "strncasecmp_eq a b n = (map tolower_ch (take n a) = map tolower_ch (take n b))"

text \<open>\<^verbatim>\<open>strtoul(s, &e, 10)\<close> on a string that starts with a digit: the value of the digit
  run, \<^verbatim>\<open>ULONG_MAX\<close> when it does not fit, and the rest of the string.\<close>

definition digit_val :: "char \<Rightarrow> int" where
  "digit_val c = of_char c - 48"

definition ULONG_MAX :: int where
  "ULONG_MAX = 2 ^ 64 - 1"

definition digit_run_value :: "string \<Rightarrow> int" where
  "digit_run_value s = foldl (\<lambda>v c. 10 * v + digit_val c) 0 (takeWhile isdigit s)"

definition strtoul :: "string \<Rightarrow> int \<times> string" where
  "strtoul s = (min (digit_run_value s) ULONG_MAX, dropWhile isdigit s)"

subsection \<open>The match context\<close>

record match_context =
  mc_match :: dbref
  mc_bestmatch :: dbref
  mc_abs :: dbref
  mc_who :: dbref
  mc_where :: dbref
  mc_flags :: mflags
  mc_type :: otype
  mc_final :: int
  mc_curr :: int
  mc_nocontrol :: int
  mc_right_type :: int
  mc_exact :: int
  mc_done :: int
  mc_name :: string

definition MATCH_CONTROLS :: "world \<Rightarrow> match_context \<Rightarrow> bool" where
  "MATCH_CONTROLS w mc =
     (\<not> (mc_flags mc AND MAT_CONTROL \<noteq> 0) \<or> controls w (mc_who mc) (mc_match mc))"

definition MATCH_TYPE :: "world \<Rightarrow> match_context \<Rightarrow> int" where
  "MATCH_TYPE w mc =
     (if mc_type mc AND Typeof w (mc_match mc) \<noteq> 0 then 1
      else if mc_flags mc AND MAT_TYPE \<noteq> 0 then 0 else - 1)"

definition MATCH_CONTENTS :: "world \<Rightarrow> match_context \<Rightarrow> bool" where
  "MATCH_CONTENTS w mc =
     (\<not> (mc_flags mc AND MAT_CONTENTS \<noteq> 0) \<or> Location w (mc_match mc) = mc_where mc)"

subsection \<open>The tie-breaker\<close>

definition choose_thing :: "world \<Rightarrow> dbref \<Rightarrow> otype \<Rightarrow> mflags \<Rightarrow> dbref \<Rightarrow> dbref \<Rightarrow> dbref" where
  "choose_thing w who preferred_type flags thing1 thing2 =
     (if \<not> GoodObject w thing1 \<and> \<not> GoodObject w thing2 then
        (if thing1 = NOTHING then thing2 else thing1)
      else if \<not> GoodObject w thing1 then thing2
      else if \<not> GoodObject w thing2 then thing1
      else if preferred_type \<noteq> NOTYPE
              \<and> Typeof w thing1 AND preferred_type \<noteq> 0
              \<and> \<not> (Typeof w thing2 AND preferred_type \<noteq> 0) then thing1
      else if preferred_type \<noteq> NOTYPE
              \<and> \<not> (Typeof w thing1 AND preferred_type \<noteq> 0)
              \<and> Typeof w thing2 AND preferred_type \<noteq> 0 then thing2
      else if flags AND MAT_CHECK_KEYS \<noteq> 0 then
        (let key = could_doit w who thing1 in
           if \<not> key \<and> could_doit w who thing2 then thing2
           else if key \<and> \<not> could_doit w who thing2 then thing1
           else thing2)
      else thing2)"

definition BEST_MATCH :: "world \<Rightarrow> match_context \<Rightarrow> dbref" where
  "BEST_MATCH w mc =
     choose_thing w (mc_who mc) (mc_type mc) (mc_flags mc) (mc_bestmatch mc) (mc_match mc)"

subsection \<open>The match evaluator\<close>

text \<open>\<^verbatim>\<open>matched(full, mc)\<close>, lines 210-253. The context pointer is never null. The result
  is the returned int and the context as the call leaves it.\<close>

definition matched :: "world \<Rightarrow> int \<Rightarrow> match_context \<Rightarrow> int \<times> match_context" where
  "matched w full mc =
     (if \<not> MATCH_CONTROLS w mc then (0, mc\<lparr>mc_nocontrol := 1\<rparr>)
      else if \<not> (mc_final mc \<noteq> 0) then
        (let mc1 = mc\<lparr>mc_bestmatch := BEST_MATCH w mc\<rparr> in
         if mc_bestmatch mc1 \<noteq> mc_match mc1 then (0, mc1)
         else
           (let mc2 =
              (if full \<noteq> 0 then
                 (if mc_exact mc1 \<noteq> 0 then mc1\<lparr>mc_curr := mc_curr mc1 + 1\<rparr>
                  else mc1\<lparr>mc_exact := 1, mc_curr := 1, mc_right_type := 0\<rparr>)
               else mc1\<lparr>mc_curr := mc_curr mc1 + 1\<rparr>);
                mc3 =
              (if mc_type mc2 \<noteq> NOTYPE \<and> Typeof w (mc_bestmatch mc2) AND mc_type mc2 \<noteq> 0
               then mc2\<lparr>mc_right_type := mc_right_type mc2 + 1\<rparr>
               else mc2)
            in (0, mc3)))
      else
        (let mc1 = mc\<lparr>mc_curr := mc_curr mc + 1\<rparr> in
         if mc_curr mc1 = mc_final mc1
         then (1, mc1\<lparr>mc_bestmatch := mc_match mc1, mc_done := 1\<rparr>)
         else (0, mc1)))"

text \<open>\<^verbatim>\<open>match_aliases(match, name)\<close>, lines 419-437; \<^verbatim>\<open>mush_strncpy\<close> keeps at most
  \<^verbatim>\<open>BUFFER_LEN - 1\<close> bytes of the attribute value.\<close>

definition match_aliases :: "world \<Rightarrow> dbref \<Rightarrow> string \<Rightarrow> bool" where
  "match_aliases w match name =
     (if \<not> IsPlayer w match \<and> \<not> IsExit w match then False
      else if IsExit w match \<and> check_alias w name (Name w match) then True
      else (case Alias w match of
              None \<Rightarrow> False
            | Some v \<Rightarrow> check_alias w name (take (BUFFER_LEN w - 1) v)))"

text \<open>The two name tests that \<^verbatim>\<open>match_obj_list\<close> (lines 342-347) and
  \<^verbatim>\<open>match_attr_helper\<close> (lines 292-297) both spell out.\<close>

definition exact_name :: "world \<Rightarrow> match_context \<Rightarrow> bool" where
  "exact_name w mc =
     (match_aliases w (mc_match mc) (mc_name mc)
      \<or> (\<not> IsExit w (mc_match mc) \<and> strcasecmp_eq (Name w (mc_match mc)) (mc_name mc)))"

definition partial_name :: "world \<Rightarrow> match_context \<Rightarrow> bool" where
  "partial_name w mc =
     (\<not> (mc_flags mc AND MAT_EXACT \<noteq> 0)
      \<and> (\<not> (mc_exact mc \<noteq> 0) \<or> \<not> GoodObject w (mc_bestmatch mc))
      \<and> \<not> IsExit w (mc_match mc)
      \<and> string_match w (Name w (mc_match mc)) (mc_name mc))"

subsection \<open>The candidate enumerators\<close>

text \<open>The body of the \<^verbatim>\<open>DOLIST\<close> loop of \<^verbatim>\<open>match_obj_list\<close>, lines 331-351, over the
  references \<open>xs\<close> still to visit; \<open>t\<close> is the value that ends the loop. \<^verbatim>\<open>MATCHED\<close>
  leaves the loop when \<^verbatim>\<open>matched\<close> returns non-zero and continues it otherwise.\<close>

fun match_obj_loop :: "world \<Rightarrow> dbref \<Rightarrow> dbref list \<Rightarrow> match_context \<Rightarrow> match_context" where
  "match_obj_loop w t [] mc0 = mc0\<lparr>mc_match := t\<rparr>"
| "match_obj_loop w t (x # xs) mc0 =
     (let mc = mc0\<lparr>mc_match := x\<rparr> in
      if MATCH_TYPE w mc = 0 then match_obj_loop w t xs mc
      else if mc_match mc = mc_abs mc then
        (case matched w 1 mc of (r, mc') \<Rightarrow> if r \<noteq> 0 then mc' else match_obj_loop w t xs mc')
      else if \<not> can_interact w (mc_match mc) (mc_who mc) then match_obj_loop w t xs mc
      else if exact_name w mc then
        (case matched w 1 mc of (r, mc') \<Rightarrow> if r \<noteq> 0 then mc' else match_obj_loop w t xs mc')
      else if partial_name w mc then
        (case matched w 0 mc of (r, mc') \<Rightarrow> if r \<noteq> 0 then mc' else match_obj_loop w t xs mc')
      else match_obj_loop w t xs mc)"

text \<open>\<^verbatim>\<open>match_obj_list(start, mc)\<close>, lines 326-354.\<close>

definition match_obj_list :: "world \<Rightarrow> dbref \<Rightarrow> match_context \<Rightarrow> int \<times> match_context" where
  "match_obj_list w start mc =
     (if mc_done mc \<noteq> 0 then (1, mc)
      else (2, match_obj_loop w (dolist_end w start) (dolist w start) (mc\<lparr>mc_match := start\<rparr>)))"

text \<open>\<^verbatim>\<open>match_attr_helper\<close>, lines 255-303, on one attribute, given as the pair of
  \<^verbatim>\<open>parse_dbref\<close> of its name after the backquote and \<^verbatim>\<open>parse_integer\<close> of its value.\<close>

definition match_attr_helper :: "world \<Rightarrow> dbref \<times> int \<Rightarrow> match_context \<Rightarrow> int \<times> match_context" where
  "match_attr_helper w atr mc0 =
     (let obj = fst atr; num = snd atr in
      if mc_done mc0 \<noteq> 0 then (0, mc0)
      else if \<not> RealGoodObject w obj \<or> \<not> Generic w obj then (0, mc0)
      else if num \<le> 0 then (0, mc0)
      else
        (let mc = mc0\<lparr>mc_match := obj\<rparr> in
         if MATCH_TYPE w mc = 0 then (0, mc)
         else if mc_match mc = mc_abs mc then matched w 1 mc
         else if \<not> can_interact w (mc_match mc) (mc_who mc) then (0, mc)
         else if exact_name w mc then matched w 1 mc
         else if partial_name w mc then matched w 0 mc
         else (1, mc)))"

text \<open>Modelled from the spec: \<^verbatim>\<open>atr_iter_get_parent\<close> is absent. It calls the helper on
  every attribute the pattern matches, in order, and returns the sum of the helper's
  results.\<close>

fun atr_iter_get_parent :: "world \<Rightarrow> (dbref \<times> int) list \<Rightarrow> match_context \<Rightarrow> int \<times> match_context" where
  "atr_iter_get_parent w [] mc = (0, mc)"
| "atr_iter_get_parent w (a # as) mc =
     (case match_attr_helper w a mc of
        (r, mc') \<Rightarrow> (case atr_iter_get_parent w as mc' of (n, mc'') \<Rightarrow> (r + n, mc'')))"

text \<open>\<^verbatim>\<open>match_attr_list(obj, mc)\<close>, lines 305-321.\<close>

definition match_attr_list :: "world \<Rightarrow> dbref \<Rightarrow> match_context \<Rightarrow> int \<times> match_context" where
  "match_attr_list w obj mc =
     (if mc_done mc \<noteq> 0 then (1, mc)
      else
        (let mc' = snd (atr_iter_get_parent w (generic_attrs w obj) mc) in
         if mc_done mc' \<noteq> 0 then (1, mc') else (0, mc')))"

subsection \<open>The phrase parser\<close>

text \<open>\<^verbatim>\<open>parse_english(&name, &flags)\<close>, lines 644-735, in parts. The result of
  \<open>parse_english\<close> is the returned count, the text \<^verbatim>\<open>*name\<close> points to on return and
  the value of \<^verbatim>\<open>*flags\<close> on return. The buffer itself is unchanged on return (the byte
  overwritten with NUL at line 701 is restored at line 723).\<close>

text \<open>Lines 653-675, the restriction adjectives, one definition for each of the three
  \<^verbatim>\<open>if\<close> statements: the text \<^verbatim>\<open>*name\<close> and the flags \<^verbatim>\<open>*flags\<close> before and after.\<close>

definition adj_here :: "string \<times> mflags \<Rightarrow> string \<times> mflags" where
  "adj_here nf =
     (let name = fst nf; flags = snd nf in
      if flags AND MAT_NEIGHBOR \<noteq> 0 then
        (if strncasecmp_eq name ''this here '' 10
         then (drop 10 name, flags AND NOT (MAT_POSSESSION OR MAT_EXIT))
         else if strncasecmp_eq name ''here '' 5 \<or> strncasecmp_eq name ''this '' 5
         then (drop 5 name,
               flags AND NOT (MAT_POSSESSION OR MAT_EXIT OR MAT_REMOTE_CONTENTS OR MAT_CONTAINER))
         else (name, flags))
      else (name, flags))"

definition adj_my :: "string \<times> mflags \<Rightarrow> string \<times> mflags" where
  "adj_my nf =
     (let name = fst nf; flags = snd nf in
      if flags AND MAT_POSSESSION \<noteq> 0
         \<and> (strncasecmp_eq name ''my '' 3 \<or> strncasecmp_eq name ''me '' 3)
      then (drop 3 name,
            flags AND NOT (MAT_NEIGHBOR OR MAT_EXIT OR MAT_CONTAINER OR MAT_REMOTE_CONTENTS))
      else (name, flags))"

definition adj_toward :: "string \<times> mflags \<Rightarrow> string \<times> mflags" where
  "adj_toward nf =
     (let name = fst nf; flags = snd nf in
      if flags AND (MAT_EXIT OR MAT_CARRIED_EXIT) \<noteq> 0 \<and> strncasecmp_eq name ''toward '' 7
      then (drop 7 name,
            flags AND NOT (MAT_NEIGHBOR OR MAT_POSSESSION OR MAT_CONTAINER OR MAT_REMOTE_CONTENTS))
      else (name, flags))"

text \<open>Lines 653-678: the adjectives, then the spaces that follow them.\<close>

definition restriction_adjectives :: "string \<Rightarrow> mflags \<Rightarrow> string \<times> mflags" where
  "restriction_adjectives name0 flags0 =
     (let nf = adj_toward (adj_my (adj_here (name0, flags0)))
      in (dropWhile (\<lambda>c. c = CHR '' '') (fst nf), snd nf))"

text \<open>Lines 702-722 on the token \<open>tok\<close> that ends at the first space: \<^verbatim>\<open>strtoul\<close>, the
  conversion of its \<^verbatim>\<open>unsigned long\<close> result to the \<^verbatim>\<open>int\<close> \<^verbatim>\<open>count\<close>, and the check of
  the suffix. The value computed is that of \<^verbatim>\<open>count\<close> at line 724. The remainder
  \<^verbatim>\<open>count % 10\<close> is only taken of a \<^verbatim>\<open>count\<close> that is at least 1, where C's \<^verbatim>\<open>%\<close> and
  \<open>mod\<close> agree.\<close>

definition count_adjective :: "string \<Rightarrow> int" where
  "count_adjective tok =
     (let (v, e) = strtoul tok;
          count = sint (word_of_int v :: 32 word)
      in if e \<noteq> [] then
           (if count < 1 then - 1
            else if count > 10 \<and> count < 14 then
              (if \<not> strcasecmp_eq e ''th'' then - 1 else count)
            else if count mod 10 = 1 then
              (if \<not> strcasecmp_eq e ''st'' then - 1 else count)
            else if count mod 10 = 2 then
              (if \<not> strcasecmp_eq e ''nd'' then - 1 else count)
            else if count mod 10 = 3 then
              (if \<not> strcasecmp_eq e ''rd'' then - 1 else count)
            else if \<not> strcasecmp_eq e ''th'' then - 1
            else count)
         else - 1)"

definition parse_english :: "string \<Rightarrow> mflags \<Rightarrow> int \<times> string \<times> mflags" where
  "parse_english name0 flags0 =
     (let saveflags = (scast (ucast flags0 :: 32 word) :: mflags);
          savename = name0;
          (name, flags) = restriction_adjectives name0 flags0
      in if name = [] then (0, savename, saveflags)
         else if \<not> isdigit (hd name) then (0, name, flags)
         else if CHR '' '' \<notin> set name then (0, name, flags)
         else
           (let savename = name;
                mname = dropWhile (\<lambda>c. c \<noteq> CHR '' '') name;
                count = count_adjective (takeWhile (\<lambda>c. c \<noteq> CHR '' '') name)
            in if count < 0 then (0, savename, flags)
               else (count, dropWhile (\<lambda>c. c = CHR '' '') (tl mname), flags)))"

subsection \<open>The orchestrator\<close>

text \<open>\<^verbatim>\<open>match_player(who, name, partial)\<close>, lines 399-417; \<^verbatim>\<open>LOOKUP_TOKEN\<close> is \<^verbatim>\<open>'*'\<close>.\<close>

definition match_player :: "world \<Rightarrow> dbref \<Rightarrow> string \<Rightarrow> bool \<Rightarrow> dbref" where
  "match_player w who name0 partial =
     (let name1 = (if name0 \<noteq> [] \<and> hd name0 = CHR ''*'' then tl name0 else name0);
          name = dropWhile isspace name1;
          match = lookup_player w name
      in if match \<noteq> NOTHING then match
         else if GoodObject w who \<and> partial then visible_short_page w who name
         else NOTHING)"

text \<open>The location \<^verbatim>\<open>loc\<close> of the anchor, lines 481-488.\<close>

definition match_loc :: "world \<Rightarrow> dbref \<Rightarrow> dbref" where
  "match_loc w where' =
     (if \<not> RealGoodObject w where' then NOTHING
      else if IsRoom w where' then where'
      else if IsExit w where' then Source w where'
      else Location w where')"

text \<open>The context as lines 468-479 initialise it. The fields \<^verbatim>\<open>match\<close> and \<^verbatim>\<open>name\<close> are
  left uninitialised there and are assigned (lines 500 and 562) before they are read; the
  model starts them at \<^verbatim>\<open>NOTHING\<close> and at the raw text.\<close>

definition init_context :: "world \<Rightarrow> dbref \<Rightarrow> dbref \<Rightarrow> string \<Rightarrow> otype \<Rightarrow> mflags \<Rightarrow> match_context" where
  "init_context w who where' xname type flags =
     \<lparr>mc_match = NOTHING, mc_bestmatch = NOTHING, mc_abs = parse_objid w xname,
      mc_who = who, mc_where = where', mc_flags = flags, mc_type = type,
      mc_final = 0, mc_curr = 0, mc_nocontrol = 0, mc_right_type = 0,
      mc_exact = 0, mc_done = 0, mc_name = xname\<rparr>"

text \<open>The fixed-precedence shortcuts. Each returns \<open>Inl match\<close> where the C code returns
  \<^verbatim>\<open>mc->match\<close>, and \<open>Inr\<close> of the context with which the code goes on otherwise.\<close>

text \<open>Lines 499-508, "me".\<close>

definition match_me :: "world \<Rightarrow> string \<Rightarrow> mflags \<Rightarrow> match_context \<Rightarrow> dbref + match_context" where
  "match_me w xname flags mc0 =
     (let mc = mc0\<lparr>mc_match := mc_where mc0\<rparr> in
      if RealGoodObject w (mc_where mc0) \<and> MATCH_TYPE w mc \<noteq> 0 \<and> flags AND MAT_ME \<noteq> 0
         \<and> \<not> (flags AND MAT_CONTENTS \<noteq> 0) \<and> strcasecmp_eq xname ''me''
      then (if MATCH_CONTROLS w mc then Inl (mc_match mc) else Inr (mc\<lparr>mc_nocontrol := 1\<rparr>))
      else Inr mc)"

text \<open>Lines 510-519, "here".\<close>

definition match_here :: "world \<Rightarrow> string \<Rightarrow> mflags \<Rightarrow> match_context \<Rightarrow> dbref + match_context" where
  "match_here w xname flags mc0 =
     (let where' = mc_where mc0;
          mc = mc0\<lparr>mc_match :=
                 (if RealGoodObject w where'
                  then (if IsRoom w where' then NOTHING else Location w where')
                  else NOTHING)\<rparr>
      in if flags AND MAT_HERE \<noteq> 0 \<and> \<not> (flags AND MAT_CONTENTS \<noteq> 0)
            \<and> strcasecmp_eq xname ''here'' \<and> GoodObject w (mc_match mc) \<and> MATCH_TYPE w mc \<noteq> 0
         then (if MATCH_CONTROLS w mc then Inl (mc_match mc) else Inr (mc\<lparr>mc_nocontrol := 1\<rparr>))
         else Inr mc)"

text \<open>Lines 521-540, a player name.\<close>

definition match_pmatch :: "world \<Rightarrow> string \<Rightarrow> otype \<Rightarrow> mflags \<Rightarrow> match_context \<Rightarrow> dbref + match_context" where
  "match_pmatch w xname type flags mc0 =
     (let who = mc_who mc0 in
      if (flags AND MAT_PMATCH \<noteq> 0
          \<or> (flags AND MAT_PLAYER \<noteq> 0 \<and> xname \<noteq> [] \<and> hd xname = CHR ''*''))
         \<and> (type AND TYPE_PLAYER \<noteq> 0 \<or> \<not> (flags AND MAT_TYPE \<noteq> 0))
      then
        (let mc = mc0\<lparr>mc_match := match_player w who xname (\<not> (flags AND MAT_EXACT \<noteq> 0))\<rparr> in
         if MATCH_CONTENTS w mc then
           (if GoodObject w (mc_match mc) then
              (if \<not> (flags AND MAT_NEAR \<noteq> 0) \<or> Long_Fingers w who
                  \<or> (nearby w who (mc_match mc) \<or> controls w who (mc_match mc))
               then (if MATCH_CONTROLS w mc then Inl (mc_match mc)
                     else Inr (mc\<lparr>mc_nocontrol := 1\<rparr>))
               else Inr mc)
            else Inr (mc\<lparr>mc_bestmatch := BEST_MATCH w mc\<rparr>))
         else Inr mc)
      else Inr mc0)"

text \<open>Lines 542-555, an absolute reference.\<close>

definition match_absolute :: "world \<Rightarrow> mflags \<Rightarrow> match_context \<Rightarrow> dbref + match_context" where
  "match_absolute w flags mc0 =
     (let who = mc_who mc0;
          mc = mc0\<lparr>mc_match := mc_abs mc0\<rparr>
      in if RealGoodObject w (mc_match mc) \<and> flags AND MAT_ABSOLUTE \<noteq> 0
            \<and> MATCH_TYPE w mc \<noteq> 0 \<and> MATCH_CONTENTS w mc
         then
           (if \<not> (flags AND MAT_NEAR \<noteq> 0) \<or> Long_Fingers w who
               \<or> (nearby w who (mc_match mc) \<or> controls w who (mc_match mc))
            then (if MATCH_CONTROLS w mc then Inl (mc_match mc)
                  else Inr (mc\<lparr>mc_nocontrol := 1\<rparr>))
            else Inr mc)
         else Inr mc)"

text \<open>Lines 557-563: the phrase parser runs when \<^verbatim>\<open>MAT_ENGLISH\<close> is set; the context
  takes the count, the residual name and the flags, which are also the local
  \<^verbatim>\<open>flags\<close> from here on.\<close>

definition match_english :: "string \<Rightarrow> mflags \<Rightarrow> match_context \<Rightarrow> match_context" where
  "match_english xname flags mc =
     (let (final, name, flags') =
        (if flags AND MAT_ENGLISH \<noteq> 0 then parse_english xname flags else (0, xname, flags))
      in mc\<lparr>mc_final := final, mc_name := name, mc_flags := flags'\<rparr>)"

text \<open>The pools of the general search, lines 565-599. The conditions that guard the
  \<^verbatim>\<open>MATCH_LIST\<close> and \<^verbatim>\<open>MATCH_GENERIC\<close> statements read only the locals \<^verbatim>\<open>where\<close>,
  \<^verbatim>\<open>loc\<close>, \<^verbatim>\<open>goodwhere\<close>, \<^verbatim>\<open>type\<close> and \<^verbatim>\<open>flags\<close>, none of which changes inside the loop.
  \<open>search_plan\<close> lists, in the order of the statements, those whose guards hold: the
  pool, and the call made for it.\<close>

datatype pool =
  Possessions | Possession_Proxies | Neighbors | Neighbor_Proxies
  | Zone_Exits | Master_Exits | Room_Exits | Container | Carried_Exits

datatype visit = Obj_List dbref | Attr_List dbref

definition search_plan ::
  "world \<Rightarrow> dbref \<Rightarrow> dbref \<Rightarrow> bool \<Rightarrow> otype \<Rightarrow> mflags \<Rightarrow> (pool \<times> visit) list" where
  "search_plan w where' loc goodwhere type flags =
     (if goodwhere \<and> flags AND (MAT_POSSESSION OR MAT_REMOTE_CONTENTS) \<noteq> 0
      then [(Possessions, Obj_List (Contents w where')), (Possession_Proxies, Attr_List where')]
      else [])
     @ (if GoodObject w loc \<and> flags AND MAT_NEIGHBOR \<noteq> 0 \<and> \<not> (flags AND MAT_CONTENTS \<noteq> 0)
           \<and> loc \<noteq> where'
        then [(Neighbors, Obj_List (Contents w loc)), (Neighbor_Proxies, Attr_List loc)]
        else [])
     @ (if type AND TYPE_EXIT \<noteq> 0 \<or> \<not> (flags AND MAT_TYPE \<noteq> 0) then
          (if GoodObject w loc \<and> IsRoom w loc \<and> flags AND MAT_EXIT \<noteq> 0 then
             (if flags AND MAT_REMOTES \<noteq> 0 \<and> \<not> (flags AND (MAT_NEAR OR MAT_CONTENTS) \<noteq> 0)
                 \<and> GoodObject w (Zone w loc) \<and> IsRoom w (Zone w loc)
              then [(Zone_Exits, Obj_List (Exits w (Zone w loc)))] else [])
             @ (if flags AND MAT_GLOBAL \<noteq> 0 \<and> \<not> (flags AND (MAT_NEAR OR MAT_CONTENTS) \<noteq> 0)
                then [(Master_Exits, Obj_List (Exits w (MASTER_ROOM w)))] else [])
             @ (if GoodObject w loc \<and> IsRoom w loc
                then [(Room_Exits, Obj_List (Exits w loc))] else [])
           else [])
        else [])
     @ (if flags AND MAT_CONTAINER \<noteq> 0 \<and> \<not> (flags AND MAT_CONTENTS \<noteq> 0) \<and> goodwhere
        then [(Container, Obj_List loc)] else [])
     @ (if type AND TYPE_EXIT \<noteq> 0 \<or> \<not> (flags AND MAT_TYPE \<noteq> 0) then
          (if flags AND MAT_CARRIED_EXIT \<noteq> 0 \<and> goodwhere \<and> IsRoom w where'
              \<and> (loc \<noteq> where' \<or> \<not> (flags AND MAT_EXIT \<noteq> 0))
           then [(Carried_Exits, Obj_List (Exits w where'))] else [])
        else [])"

text \<open>One pass through the body of \<^verbatim>\<open>while (1)\<close>. \<^verbatim>\<open>MATCH_LIST\<close> restarts the loop
  (\<^verbatim>\<open>continue\<close>) when \<^verbatim>\<open>match_obj_list\<close> returns 0, leaves it (\<^verbatim>\<open>break\<close>) when it returns
  1 and goes on to the next statement otherwise; \<^verbatim>\<open>MATCH_GENERIC\<close> leaves the loop when
  \<^verbatim>\<open>match_attr_list\<close> returns non-zero; the body ends in \<^verbatim>\<open>break\<close>. The second
  component lists the pools whose call was made.\<close>

datatype ctl = Continue | Break

fun run_plan :: "world \<Rightarrow> (pool \<times> visit) list \<Rightarrow> match_context \<Rightarrow> ctl \<times> pool list \<times> match_context" where
  "run_plan w [] mc = (Break, [], mc)"
| "run_plan w ((p, Obj_List start) # vs) mc =
     (case match_obj_list w start mc of
        (result, mc') \<Rightarrow>
          if \<not> (result \<noteq> 0) then (Continue, [p], mc')
          else if result = 1 then (Break, [p], mc')
          else (case run_plan w vs mc' of (c, ps, mc'') \<Rightarrow> (c, p # ps, mc'')))"
| "run_plan w ((p, Attr_List container) # vs) mc =
     (case match_attr_list w container mc of
        (result, mc') \<Rightarrow>
          if result \<noteq> 0 then (Break, [p], mc')
          else (case run_plan w vs mc' of (c, ps, mc'') \<Rightarrow> (c, p # ps, mc'')))"

text \<open>The loop \<^verbatim>\<open>while (1)\<close> itself: \<open>None\<close> when it never ends.\<close>

partial_function (option) general_search ::
  "world \<Rightarrow> (pool \<times> visit) list \<Rightarrow> match_context \<Rightarrow> (pool list \<times> match_context) option" where
  "general_search w plan mc =
     (let r = run_plan w plan mc in
      if fst r = Continue
      then Option.bind (general_search w plan (snd (snd r)))
             (\<lambda>r'. Some (fst (snd r) @ fst r', snd r'))
      else Some (snd r))"

text \<open>Lines 601-610, the classification of the context the search leaves.\<close>

definition match_classify :: "world \<Rightarrow> mflags \<Rightarrow> match_context \<Rightarrow> match_context" where
  "match_classify w flags mc =
     (if \<not> GoodObject w (mc_bestmatch mc) \<and> mc_final mc \<noteq> 0
      then mc\<lparr>mc_bestmatch := NOTHING\<rparr>
      else if \<not> (mc_final mc \<noteq> 0) \<and> mc_curr mc > 1 then
        (if mc_right_type mc \<noteq> 1 \<and> \<not> (flags AND MAT_LAST \<noteq> 0)
         then mc\<lparr>mc_bestmatch := AMBIGUOUS\<rparr>
         else mc)
      else mc)"

text \<open>Lines 612-621, the messages sent to \<^verbatim>\<open>who\<close> with \<^verbatim>\<open>notify\<close>.\<close>

definition match_notify :: "world \<Rightarrow> dbref \<Rightarrow> mflags \<Rightarrow> match_context \<Rightarrow> string list" where
  "match_notify w who flags mc =
     (if \<not> GoodObject w (mc_bestmatch mc) \<and> flags AND MAT_NOISY \<noteq> 0 \<and> GoodObject w who then
        (if mc_bestmatch mc = AMBIGUOUS then [''I don't know which one you mean!'']
         else if mc_nocontrol mc \<noteq> 0 then [''Permission denied.'']
         else [''I can't see that here.''])
      else [])"

text \<open>Lines 468-563 of \<^verbatim>\<open>match_result_internal\<close>: \<open>Inl\<close> of the returned reference and
  the messages sent when the function returns before the general search, \<open>Inr\<close> of the
  context with which the search starts otherwise.\<close>

definition match_prologue ::
  "world \<Rightarrow> dbref \<Rightarrow> dbref \<Rightarrow> string \<Rightarrow> otype \<Rightarrow> mflags \<Rightarrow> (dbref \<times> string list) + match_context" where
  "match_prologue w who where' xname type flags =
     (let mc = init_context w who where' xname type flags;
          goodwhere = RealGoodObject w where'
      in if (flags AND MAT_NEAR \<noteq> 0 \<and> \<not> goodwhere) \<or> (flags AND MAT_CONTENTS \<noteq> 0 \<and> \<not> goodwhere)
         then Inl (NOTHING,
                   if flags AND MAT_NOISY \<noteq> 0 \<and> GoodObject w who
                   then [''I can't see that here.''] else [])
         else
           (case match_me w xname flags mc of Inl m \<Rightarrow> Inl (m, [])
            | Inr mc1 \<Rightarrow>
           (case match_here w xname flags mc1 of Inl m \<Rightarrow> Inl (m, [])
            | Inr mc2 \<Rightarrow>
           (case match_pmatch w xname type flags mc2 of Inl m \<Rightarrow> Inl (m, [])
            | Inr mc3 \<Rightarrow>
           (case match_absolute w flags mc3 of Inl m \<Rightarrow> Inl (m, [])
            | Inr mc4 \<Rightarrow> Inr (match_english xname flags mc4))))))"

text \<open>The general search as \<^verbatim>\<open>match_result_internal\<close> runs it from the context the
  prologue leaves: the pools visited and the context after the loop.\<close>

definition match_search :: "world \<Rightarrow> match_context \<Rightarrow> (pool list \<times> match_context) option" where
  "match_search w mc =
     general_search w
       (search_plan w (mc_where mc) (match_loc w (mc_where mc)) (RealGoodObject w (mc_where mc))
          (mc_type mc) (mc_flags mc))
       mc"

text \<open>\<^verbatim>\<open>match_result_internal(who, where, xname, type, flags)\<close>, lines 455-626: the
  returned reference and the messages sent, \<open>None\<close> when the call does not return.\<close>

definition match_result_internal ::
  "world \<Rightarrow> dbref \<Rightarrow> dbref \<Rightarrow> string \<Rightarrow> otype \<Rightarrow> mflags \<Rightarrow> (dbref \<times> string list) option" where
  "match_result_internal w who where' xname type flags =
     (case match_prologue w who where' xname type flags of
        Inl r \<Rightarrow> Some r
      | Inr mc \<Rightarrow>
          (case match_search w mc of
             None \<Rightarrow> None
           | Some (ps, mc') \<Rightarrow>
               (let mc'' = match_classify w (mc_flags mc) mc'
                in Some (mc_bestmatch mc'', match_notify w who (mc_flags mc) mc''))))"

text \<open>The entry points, lines 107-131 and 439-450.\<close>

definition match_result :: "world \<Rightarrow> dbref \<Rightarrow> string \<Rightarrow> otype \<Rightarrow> mflags \<Rightarrow> (dbref \<times> string list) option" where
  "match_result w who xname type flags = match_result_internal w who who xname type flags"

definition match_result_relative ::
  "world \<Rightarrow> dbref \<Rightarrow> dbref \<Rightarrow> string \<Rightarrow> otype \<Rightarrow> mflags \<Rightarrow> (dbref \<times> string list) option" where
  "match_result_relative w who where' xname type flags =
     match_result_internal w who where' xname type flags"

definition noisy_match_result :: "world \<Rightarrow> dbref \<Rightarrow> string \<Rightarrow> otype \<Rightarrow> mflags \<Rightarrow> (dbref \<times> string list) option" where
  "noisy_match_result w who name type flags =
     (case match_result w who name type (flags OR MAT_NOISY) of
        None \<Rightarrow> None
      | Some (match, msgs) \<Rightarrow>
          if \<not> GoodObject w match then Some (NOTHING, msgs) else Some (match, msgs))"

definition last_match_result :: "world \<Rightarrow> dbref \<Rightarrow> string \<Rightarrow> otype \<Rightarrow> mflags \<Rightarrow> (dbref \<times> string list) option" where
  "last_match_result w who name type flags = match_result w who name type (flags OR MAT_LAST)"

subsection \<open>Vocabulary of the proofs\<close>

text \<open>The chain of tests on one candidate \<open>x\<close>, which \<^verbatim>\<open>match_obj_list\<close> (lines 333-350)
  and \<^verbatim>\<open>match_attr_helper\<close> (lines 281-300) both run after assigning \<open>x\<close> to
  \<^verbatim>\<open>mc->match\<close>: the context it leaves, and whether \<^verbatim>\<open>matched\<close> returned non-zero.\<close>

definition eval_candidate :: "world \<Rightarrow> dbref \<Rightarrow> match_context \<Rightarrow> bool \<times> match_context" where
  "eval_candidate w x mc0 =
     (let mc = mc0\<lparr>mc_match := x\<rparr> in
      if MATCH_TYPE w mc = 0 then (False, mc)
      else if mc_match mc = mc_abs mc then (fst (matched w 1 mc) \<noteq> 0, snd (matched w 1 mc))
      else if \<not> can_interact w (mc_match mc) (mc_who mc) then (False, mc)
      else if exact_name w mc then (fst (matched w 1 mc) \<noteq> 0, snd (matched w 1 mc))
      else if partial_name w mc then (fst (matched w 0 mc) \<noteq> 0, snd (matched w 0 mc))
      else (False, mc))"

text \<open>The attributes that \<^verbatim>\<open>match_attr_helper\<close> lets through its first tests (lines
  273-279), and the candidates a visit of the plan enumerates.\<close>

definition valid_proxy :: "world \<Rightarrow> dbref \<times> int \<Rightarrow> bool" where
  "valid_proxy w atr = (RealGoodObject w (fst atr) \<and> Generic w (fst atr) \<and> 0 < snd atr)"

fun visit_candidates :: "world \<Rightarrow> visit \<Rightarrow> dbref list" where
  "visit_candidates w (Obj_List start) = dolist w start"
| "visit_candidates w (Attr_List container) =
     map fst (filter (valid_proxy w) (generic_attrs w container))"

definition plan_candidates :: "world \<Rightarrow> (pool \<times> visit) list \<Rightarrow> dbref list" where
  "plan_candidates w plan = concat (map (\<lambda>pv. visit_candidates w (snd pv)) plan)"

text \<open>The candidates of the plan in traversal order, as the enumerators work through
  them: every candidate is evaluated until the early-stop latch \<^verbatim>\<open>mc->done\<close> is set
  (\<^verbatim>\<open>match_obj_list\<close> leaves its loop when \<^verbatim>\<open>matched\<close> returns non-zero, which is when it
  sets the latch; \<^verbatim>\<open>match_attr_helper\<close> tests the latch on entry).\<close>

fun scan :: "world \<Rightarrow> dbref list \<Rightarrow> match_context \<Rightarrow> match_context" where
  "scan w [] mc = mc"
| "scan w (x # xs) mc =
     (if mc_done mc \<noteq> 0 then mc else scan w xs (snd (eval_candidate w x mc)))"

text \<open>The test under which the enumerators call \<^verbatim>\<open>matched(1, mc)\<close> on a candidate \<open>x\<close>
  (a full match: the absolute reference, an alias or the whole name), and the test under
  which a search with an ordinal counts \<open>x\<close>: the type, interaction and name checks that
  lead to a call of \<^verbatim>\<open>matched\<close>, and the control check inside it (the latch \<^verbatim>\<open>mc->exact\<close>
  is never set in such a search, so that the test for a partial name does not depend on
  earlier candidates).\<close>

definition full_match :: "world \<Rightarrow> match_context \<Rightarrow> dbref \<Rightarrow> bool" where
  "full_match w mc x =
     (MATCH_TYPE w (mc\<lparr>mc_match := x\<rparr>) \<noteq> 0
      \<and> (x = mc_abs mc
         \<or> (can_interact w x (mc_who mc) \<and> exact_name w (mc\<lparr>mc_match := x\<rparr>))))"

definition reaches_matched :: "world \<Rightarrow> match_context \<Rightarrow> dbref \<Rightarrow> bool" where
  "reaches_matched w mc x =
     (MATCH_TYPE w (mc\<lparr>mc_match := x\<rparr>) \<noteq> 0
      \<and> (x = mc_abs mc
         \<or> (can_interact w x (mc_who mc)
            \<and> (exact_name w (mc\<lparr>mc_match := x\<rparr>)
               \<or> (\<not> (mc_flags mc AND MAT_EXACT \<noteq> 0) \<and> \<not> IsExit w x
                  \<and> string_match w (Name w x) (mc_name mc))))))"

definition accepted :: "world \<Rightarrow> match_context \<Rightarrow> dbref \<Rightarrow> bool" where
  "accepted w mc x = (reaches_matched w mc x \<and> MATCH_CONTROLS w (mc\<lparr>mc_match := x\<rparr>))"

text \<open>The fields of the context that the enumerators never assign.\<close>

definition same_setup :: "match_context \<Rightarrow> match_context \<Rightarrow> bool" where
  "same_setup mc0 mc =
     (mc_abs mc = mc_abs mc0 \<and> mc_who mc = mc_who mc0 \<and> mc_where mc = mc_where mc0
      \<and> mc_flags mc = mc_flags mc0 \<and> mc_type mc = mc_type mc0 \<and> mc_final mc = mc_final mc0
      \<and> mc_name mc = mc_name mc0)"

text \<open>The invariant of a search without ordinal, relative to the context \<open>mc0\<close> it
  started from: once the latch \<^verbatim>\<open>mc->exact\<close> is set, the best match is a good object that
  was a full match.\<close>

definition exact_inv :: "world \<Rightarrow> match_context \<Rightarrow> match_context \<Rightarrow> bool" where
  "exact_inv w mc0 mc =
     (same_setup mc0 mc \<and> mc_final mc = 0
      \<and> (mc_exact mc \<noteq> 0 \<longrightarrow> GoodObject w (mc_bestmatch mc) \<and> full_match w mc0 (mc_bestmatch mc)))"

text \<open>What lines 557-563 assign to \<^verbatim>\<open>mc->final\<close>, \<^verbatim>\<open>mc->name\<close> and \<^verbatim>\<open>mc->flags\<close>.\<close>

definition english_result :: "string \<Rightarrow> mflags \<Rightarrow> int \<times> string \<times> mflags" where
  "english_result xname flags =
     (if flags AND MAT_ENGLISH \<noteq> 0 then parse_english xname flags else (0, xname, flags))"

text \<open>A candidate that the tie-breaker prefers to every current best: its type
  intersects the preferred type, when one is given, and it passes the lock check, when
  \<^verbatim>\<open>MAT_CHECK_KEYS\<close> asks for one.\<close>

definition wins_tie :: "world \<Rightarrow> match_context \<Rightarrow> dbref \<Rightarrow> bool" where
  "wins_tie w mc x =
     ((mc_type mc = NOTYPE \<or> Typeof w x AND mc_type mc \<noteq> 0)
      \<and> (mc_flags mc AND MAT_CHECK_KEYS = 0 \<or> could_doit w (mc_who mc) x))"



text \<open>The ordinal rule in the spec's words (section 4.2), for comparison with the code:
  "11-13 \<open>\<rightarrow>\<close> th; else last digit 1 \<open>\<rightarrow>\<close> st, 2 \<open>\<rightarrow>\<close> nd, 3 \<open>\<rightarrow>\<close> rd, else \<open>\<rightarrow>\<close> th"; a token
  is an ordinal when it is a digit run of value at least 1 (the spec lists \<^verbatim>\<open>0th\<close> as
  malformed) followed by the suffix that agrees with it, compared without case.\<close>

definition ordinal_suffix :: "int \<Rightarrow> string" where
  "ordinal_suffix n =
     (if 11 \<le> n \<and> n \<le> 13 then ''th''
      else if n mod 10 = 1 then ''st''
      else if n mod 10 = 2 then ''nd''
      else if n mod 10 = 3 then ''rd''
      else ''th'')"

definition agreeing_ordinal :: "string \<Rightarrow> bool" where
  "agreeing_ordinal tok =
     (1 \<le> digit_run_value tok
      \<and> strcasecmp_eq (dropWhile isdigit tok) (ordinal_suffix (digit_run_value tok)))"

subsection \<open>A small database for the examples\<close>

text \<open>A room \<open>0\<close> (Hall) with the exits \<open>4\<close> and \<open>9\<close>, both named north; the player \<open>1\<close>
  (Alice) in it, who carries the things \<open>2\<close> (apple pie), \<open>3\<close> (apple), \<open>7\<close> and \<open>8\<close> (two
  coins); the thing \<open>5\<close> (lamp) lies in the room, carries the GENERIC flag and is named by
  two proxy attributes of the room. Aliases are single names, partial names are
  prefixes.\<close>

definition demo_Typeof :: "dbref \<Rightarrow> otype" where
  "demo_Typeof x =
     (if x = 0 then TYPE_ROOM else if x = 1 then TYPE_PLAYER
      else if x = 4 \<or> x = 9 then TYPE_EXIT else TYPE_THING)"

definition demo_Name :: "dbref \<Rightarrow> string" where
  "demo_Name x =
     (if x = 0 then ''Hall'' else if x = 1 then ''Alice''
      else if x = 2 then ''apple pie'' else if x = 3 then ''apple''
      else if x = 4 \<or> x = 9 then ''north'' else if x = 5 then ''lamp''
      else ''coin'')"

definition demo_Location :: "dbref \<Rightarrow> dbref" where
  "demo_Location x =
     (if x = 0 \<or> x = 4 \<or> x = 9 then - 1 else if x = 1 \<or> x = 5 then 0 else 1)"

definition demo_Contents :: "dbref \<Rightarrow> dbref" where
  "demo_Contents x = (if x = 0 then 1 else if x = 1 then 2 else - 1)"

definition demo_Exits :: "dbref \<Rightarrow> dbref" where
  "demo_Exits x = (if x = 0 then 4 else - 1)"

definition demo_Chain :: "dbref \<Rightarrow> dbref list" where
  "demo_Chain x =
     (if x = 1 then [1, 5, - 1] else if x = 2 then [2, 3, 7, 8, - 1]
      else if x = 4 then [4, 9, - 1] else if x = 0 then [0, - 1] else [x])"

definition demo_parse_objid :: "string \<Rightarrow> dbref" where
  "demo_parse_objid s = (if s = ''#3'' then 3 else - 1)"

definition demo_string_match :: "string \<Rightarrow> string \<Rightarrow> bool" where
  "demo_string_match src sub = (sub \<noteq> [] \<and> strncasecmp_eq src sub (length sub))"

definition demo_generic_attrs :: "dbref \<Rightarrow> (dbref \<times> int) list" where
  "demo_generic_attrs x = (if x = 0 then [(5, 1), (5, 3)] else [])"

definition demo_world :: world where
  "demo_world =
     \<lparr>db_top = 10,
      Typeof = demo_Typeof,
      Name = demo_Name,
      Location = demo_Location,
      Source = (\<lambda>x. 0),
      Zone = (\<lambda>x. - 1),
      Contents = demo_Contents,
      Exits = demo_Exits,
      Chain = demo_Chain,
      MASTER_ROOM = 0,
      BUFFER_LEN = 8192,
      controls = (\<lambda>a b. True),
      can_interact = (\<lambda>a b. True),
      could_doit = (\<lambda>a b. True),
      nearby = (\<lambda>a b. True),
      Long_Fingers = (\<lambda>a. False),
      lookup_player = (\<lambda>s. - 1),
      visible_short_page = (\<lambda>a s. - 1),
      parse_objid = demo_parse_objid,
      check_alias = strcasecmp_eq,
      Alias = (\<lambda>x. None),
      string_match = demo_string_match,
      Generic = (\<lambda>x. x = 5),
      generic_attrs = demo_generic_attrs\<rparr>"

text \<open>\<^verbatim>\<open>MAT_EVERYTHING\<close> of the header comment (line 45).\<close>

definition MAT_EVERYTHING :: mflags where
  "MAT_EVERYTHING =
     MAT_ME OR MAT_HERE OR MAT_ABSOLUTE OR MAT_PLAYER OR MAT_NEIGHBOR OR MAT_POSSESSION
     OR MAT_EXIT OR MAT_ENGLISH"

text \<open>The same database where nobody may interact with anything, the text \<^verbatim>\<open>#5\<close> names
  the lamp, and the lamp is named by a proxy attribute of the player \<open>1\<close> instead of the
  room.\<close>

definition proxy_world :: world where
  "proxy_world =
     demo_world\<lparr>can_interact := (\<lambda>a b. False),
                parse_objid := (\<lambda>s. if s = ''#5'' then 5 else - 1),
                generic_attrs := (\<lambda>x. if x = 1 then [(5, 2)] else [])\<rparr>"

text \<open>The database of the examples where nobody controls anything.\<close>

definition locked_world :: world where
  "locked_world = demo_world\<lparr>controls := (\<lambda>a b. False)\<rparr>"

section \<open>Properties\<close>

subsection \<open>Basic facts\<close>

lemma NOTHING_not_good: "\<not> GoodObject w NOTHING"
  by (simp add: GoodObject_def NOTHING_def)

lemma AMBIGUOUS_not_good: "\<not> GoodObject w AMBIGUOUS"
  by (simp add: GoodObject_def AMBIGUOUS_def)

lemma choose_thing_cases:
  "choose_thing w who t f a b = a \<or> choose_thing w who t f a b = b"
  by (simp add: choose_thing_def Let_def)

lemma choose_thing_good:
  "GoodObject w a \<or> GoodObject w b \<Longrightarrow> GoodObject w (choose_thing w who t f a b)"
  by (auto simp add: choose_thing_def Let_def)

subsection \<open>The general search always ends\<close>

lemma match_obj_list_result:
  "fst (match_obj_list w start mc) = 1 \<or> fst (match_obj_list w start mc) = 2"
  by (simp add: match_obj_list_def)

lemma run_plan_Break: "fst (run_plan w plan mc) = Break"
proof (induction w plan mc rule: run_plan.induct)
  case (1 w mc)
  then show ?case by simp
next
  case (2 w p start vs mc)
  obtain r mc' where r: "match_obj_list w start mc = (r, mc')"
    by (cases "match_obj_list w start mc")
  have "r = 1 \<or> r = 2" using match_obj_list_result [of w start mc] r by simp
  then show ?case using 2 r by (auto split: prod.splits)
next
  case (3 w p container vs mc)
  then show ?case by (auto split: prod.splits)
qed

lemma general_search_total: "general_search w plan mc = Some (snd (run_plan w plan mc))"
  by (subst general_search.simps) (simp add: run_plan_Break Let_def)

declare general_search_total [code]

subsection \<open>Invariants of the enumerators\<close>

declare match_obj_loop.simps(2) [simp del]

lemma match_obj_loop_Cons:
  "match_obj_loop w t (x # xs) mc =
     (if fst (eval_candidate w x mc) then snd (eval_candidate w x mc)
      else match_obj_loop w t xs (snd (eval_candidate w x mc)))"
  by (simp add: match_obj_loop.simps(2) eval_candidate_def Let_def split: prod.splits)

lemma match_attr_helper_eval:
  "snd (match_attr_helper w atr mc) =
     (if mc_done mc \<noteq> 0 \<or> \<not> valid_proxy w atr then mc
      else snd (eval_candidate w (fst atr) mc))"
  by (auto simp add: match_attr_helper_def eval_candidate_def valid_proxy_def Let_def)

text \<open>A property of the context that every evaluation of a good candidate and every
  assignment to \<^verbatim>\<open>mc->match\<close> preserves is preserved by the enumerators and the search.\<close>

lemma match_obj_loop_preserves:
  assumes step: "\<And>x mc. P mc \<Longrightarrow> GoodObject w x \<Longrightarrow> P (snd (eval_candidate w x mc))"
    and upd: "\<And>x mc. P mc \<Longrightarrow> P (mc\<lparr>mc_match := x\<rparr>)"
  shows "P mc \<Longrightarrow> \<forall>x \<in> set xs. GoodObject w x \<Longrightarrow> P (match_obj_loop w t xs mc)"
proof (induction xs arbitrary: mc)
  case Nil
  then show ?case by (simp add: upd)
next
  case (Cons x xs)
  have "P (snd (eval_candidate w x mc))" using Cons.prems step by simp
  then show ?case using Cons by (simp add: match_obj_loop_Cons)
qed

lemma dolist_good: "\<forall>x \<in> set (dolist w start). GoodObject w x"
  by (auto simp add: dolist_def dest: set_takeWhileD)

lemma match_obj_list_preserves:
  assumes step: "\<And>x mc. P mc \<Longrightarrow> GoodObject w x \<Longrightarrow> P (snd (eval_candidate w x mc))"
    and upd: "\<And>x mc. P mc \<Longrightarrow> P (mc\<lparr>mc_match := x\<rparr>)"
  shows "P mc \<Longrightarrow> P (snd (match_obj_list w start mc))"
  using match_obj_loop_preserves [of P w, OF step upd] dolist_good [of w start] upd
  by (simp add: match_obj_list_def)

lemma atr_iter_get_parent_Cons:
  "snd (atr_iter_get_parent w (a # as) mc) =
     snd (atr_iter_get_parent w as (snd (match_attr_helper w a mc)))"
  by (simp split: prod.splits)

lemma atr_iter_get_parent_preserves:
  assumes step: "\<And>x mc. P mc \<Longrightarrow> GoodObject w x \<Longrightarrow> P (snd (eval_candidate w x mc))"
  shows "P mc \<Longrightarrow> P (snd (atr_iter_get_parent w as mc))"
proof (induction as arbitrary: mc)
  case Nil
  then show ?case by simp
next
  case (Cons a as)
  have "P (snd (match_attr_helper w a mc))"
    using Cons.prems step [of mc "fst a"]
    by (simp add: match_attr_helper_eval valid_proxy_def RealGoodObject_def)
  then have "P (snd (atr_iter_get_parent w as (snd (match_attr_helper w a mc))))"
    by (rule Cons.IH)
  then show ?case by (simp only: atr_iter_get_parent_Cons)
qed

lemma match_attr_list_preserves:
  assumes step: "\<And>x mc. P mc \<Longrightarrow> GoodObject w x \<Longrightarrow> P (snd (eval_candidate w x mc))"
  shows "P mc \<Longrightarrow> P (snd (match_attr_list w obj mc))"
  using atr_iter_get_parent_preserves [of P w, OF step]
  by (simp add: match_attr_list_def Let_def)

lemma run_plan_preserves:
  assumes step: "\<And>x mc. P mc \<Longrightarrow> GoodObject w x \<Longrightarrow> P (snd (eval_candidate w x mc))"
    and upd: "\<And>x mc. P mc \<Longrightarrow> P (mc\<lparr>mc_match := x\<rparr>)"
  shows "P mc \<Longrightarrow> P (snd (snd (run_plan w plan mc)))"
proof (induction plan arbitrary: mc)
  case Nil
  then show ?case by simp
next
  case (Cons pv vs)
  obtain p v where pv: "pv = (p, v)" by (cases pv)
  have ih: "\<And>m c ps m'. P m \<Longrightarrow> run_plan w vs m = (c, ps, m') \<Longrightarrow> P m'"
    using Cons.IH by (metis snd_conv)
  show ?case
  proof (cases v)
    case (Obj_List start)
    have "P (snd (match_obj_list w start mc))"
      using match_obj_list_preserves [of P w, OF step upd] Cons.prems by simp
    then show ?thesis using pv Obj_List by (auto split: prod.splits intro: ih)
  next
    case (Attr_List container)
    have "P (snd (match_attr_list w container mc))"
      using match_attr_list_preserves [of P w, OF step] Cons.prems by simp
    then show ?thesis using pv Attr_List by (auto split: prod.splits intro: ih)
  qed
qed

lemma match_search_preserves:
  assumes step: "\<And>x mc. P mc \<Longrightarrow> GoodObject w x \<Longrightarrow> P (snd (eval_candidate w x mc))"
    and upd: "\<And>x mc. P mc \<Longrightarrow> P (mc\<lparr>mc_match := x\<rparr>)"
    and "P mc" and "match_search w mc = Some (ps, mc')"
  shows "P mc'"
proof -
  let ?plan = "search_plan w (mc_where mc) (match_loc w (mc_where mc))
     (RealGoodObject w (mc_where mc)) (mc_type mc) (mc_flags mc)"
  have "mc' = snd (snd (run_plan w ?plan mc))"
    using assms(4) by (simp add: match_search_def general_search_total)
  then show ?thesis using run_plan_preserves [of P w, OF step upd assms(3)] by simp
qed

lemma matched_setup: "same_setup mc0 mc \<Longrightarrow> same_setup mc0 (snd (matched w full mc))"
  by (simp add: matched_def same_setup_def Let_def)

lemma eval_candidate_cases:
  "snd (eval_candidate w x mc) = mc\<lparr>mc_match := x\<rparr>
   \<or> (\<exists>full. snd (eval_candidate w x mc) = snd (matched w full (mc\<lparr>mc_match := x\<rparr>)))"
  by (auto simp add: eval_candidate_def Let_def)

lemma eval_candidate_setup:
  "same_setup mc0 mc \<Longrightarrow> same_setup mc0 (snd (eval_candidate w x mc))"
proof -
  assume a: "same_setup mc0 mc"
  have b: "same_setup mc0 (mc\<lparr>mc_match := x\<rparr>)" using a by (simp add: same_setup_def)
  show ?thesis using b matched_setup [OF b] eval_candidate_cases [of w x mc] by auto
qed





lemma match_me_fields:
  "match_me w xname flags mc = Inr mc1 \<Longrightarrow>
     same_setup mc mc1 \<and> mc_bestmatch mc1 = mc_bestmatch mc \<and> mc_curr mc1 = mc_curr mc
     \<and> mc_right_type mc1 = mc_right_type mc \<and> mc_exact mc1 = mc_exact mc \<and> mc_done mc1 = mc_done mc"
  by (auto simp add: match_me_def same_setup_def Let_def split: if_splits)

lemma match_here_fields:
  "match_here w xname flags mc = Inr mc1 \<Longrightarrow>
     same_setup mc mc1 \<and> mc_bestmatch mc1 = mc_bestmatch mc \<and> mc_curr mc1 = mc_curr mc
     \<and> mc_right_type mc1 = mc_right_type mc \<and> mc_exact mc1 = mc_exact mc \<and> mc_done mc1 = mc_done mc"
  by (auto simp add: match_here_def same_setup_def Let_def split: if_splits)

lemma match_pmatch_fields:
  "match_pmatch w xname type flags mc = Inr mc1 \<Longrightarrow> \<not> GoodObject w (mc_bestmatch mc) \<Longrightarrow>
     same_setup mc mc1 \<and> \<not> GoodObject w (mc_bestmatch mc1) \<and> mc_curr mc1 = mc_curr mc
     \<and> mc_right_type mc1 = mc_right_type mc \<and> mc_exact mc1 = mc_exact mc \<and> mc_done mc1 = mc_done mc"
  by (auto simp add: match_pmatch_def same_setup_def Let_def BEST_MATCH_def choose_thing_def
      split: if_splits)

lemma match_absolute_fields:
  "match_absolute w flags mc = Inr mc1 \<Longrightarrow>
     same_setup mc mc1 \<and> mc_bestmatch mc1 = mc_bestmatch mc \<and> mc_curr mc1 = mc_curr mc
     \<and> mc_right_type mc1 = mc_right_type mc \<and> mc_exact mc1 = mc_exact mc \<and> mc_done mc1 = mc_done mc"
  by (auto simp add: match_absolute_def same_setup_def Let_def split: if_splits)

lemma match_english_fields:
  "mc_abs (match_english xname flags mc) = mc_abs mc
   \<and> mc_who (match_english xname flags mc) = mc_who mc
   \<and> mc_where (match_english xname flags mc) = mc_where mc
   \<and> mc_type (match_english xname flags mc) = mc_type mc
   \<and> mc_bestmatch (match_english xname flags mc) = mc_bestmatch mc
   \<and> mc_curr (match_english xname flags mc) = mc_curr mc
   \<and> mc_right_type (match_english xname flags mc) = mc_right_type mc
   \<and> mc_exact (match_english xname flags mc) = mc_exact mc
   \<and> mc_done (match_english xname flags mc) = mc_done mc
   \<and> mc_final (match_english xname flags mc) = fst (english_result xname flags)
   \<and> mc_name (match_english xname flags mc) = fst (snd (english_result xname flags))
   \<and> mc_flags (match_english xname flags mc) = snd (snd (english_result xname flags))"
  by (simp add: match_english_def english_result_def Let_def split: prod.splits)

lemma match_prologue_fields:
  assumes "match_prologue w who where' xname type flags = Inr mc"
  shows "mc_abs mc = parse_objid w xname \<and> mc_who mc = who \<and> mc_where mc = where'
     \<and> mc_type mc = type \<and> \<not> GoodObject w (mc_bestmatch mc) \<and> mc_curr mc = 0
     \<and> mc_right_type mc = 0 \<and> mc_exact mc = 0 \<and> mc_done mc = 0
     \<and> mc_final mc = fst (english_result xname flags)
     \<and> mc_name mc = fst (snd (english_result xname flags))
     \<and> mc_flags mc = snd (snd (english_result xname flags))"
proof -
  let ?mc0 = "init_context w who where' xname type flags"
  obtain mc1 mc2 mc3 mc4 where
    s1: "match_me w xname flags ?mc0 = Inr mc1" and
    s2: "match_here w xname flags mc1 = Inr mc2" and
    s3: "match_pmatch w xname type flags mc2 = Inr mc3" and
    s4: "match_absolute w flags mc3 = Inr mc4" and
    s5: "mc = match_english xname flags mc4"
    using assms by (auto simp add: match_prologue_def Let_def split: if_splits sum.splits)
  have i: "mc_abs ?mc0 = parse_objid w xname \<and> mc_who ?mc0 = who \<and> mc_where ?mc0 = where'
     \<and> mc_type ?mc0 = type \<and> \<not> GoodObject w (mc_bestmatch ?mc0) \<and> mc_curr ?mc0 = 0
     \<and> mc_right_type ?mc0 = 0 \<and> mc_exact ?mc0 = 0 \<and> mc_done ?mc0 = 0"
    by (simp add: init_context_def NOTHING_not_good)
  note f1 = match_me_fields [OF s1]
  note f2 = match_here_fields [OF s2]
  have g2: "\<not> GoodObject w (mc_bestmatch mc2)" using i f1 f2 by simp
  note f3 = match_pmatch_fields [OF s3 g2]
  note f4 = match_absolute_fields [OF s4]
  show ?thesis
    using i f1 f2 f3 f4 match_english_fields [of xname flags mc4] s5
    by (simp add: same_setup_def)
qed

lemma plan_candidates_good: "\<forall>x \<in> set (plan_candidates w plan). GoodObject w x"
proof -
  have "\<And>v. \<forall>x \<in> set (visit_candidates w v). GoodObject w x"
  proof -
    fix v show "\<forall>x \<in> set (visit_candidates w v). GoodObject w x"
      using dolist_good [of w] by (cases v) (auto simp add: valid_proxy_def RealGoodObject_def)
  qed
  then show ?thesis by (auto simp add: plan_candidates_def)
qed

subsection \<open>Flags the phrase parser leaves alone\<close>

lemma mask_clear: "b AND m = b \<Longrightarrow> (f AND NOT m) AND b = (0::'a::len word)"
proof -
  assume h: "b AND m = b"
  have "(f AND NOT m) AND b = (f AND NOT m) AND (b AND m)" using h by simp
  also have "\<dots> = 0" by (simp add: bit_eq_iff bit_simps)
  finally show ?thesis .
qed


lemma mask_mono: "f AND b = 0 \<Longrightarrow> (f AND NOT m) AND b = (0::'a::len word)"
  by (auto simp add: bit_eq_iff bit_simps)










subsection \<open>The tie-breaker\<close>

text \<open>\<^verbatim>\<open>choose_thing\<close> is static and has two callers, both through \<^verbatim>\<open>BEST_MATCH\<close>. Line 537
  passes \<^verbatim>\<open>mc->bestmatch\<close> as \<^verbatim>\<open>thing1\<close> before anything was assigned to it: it still is
  \<^verbatim>\<open>NOTHING\<close>. Line 221, in \<^verbatim>\<open>matched\<close>, passes as \<^verbatim>\<open>thing2\<close> the candidate that an
  enumerator took from a pool, which is a good object.\<close>

lemma pmatch_call_site:
  assumes "match_me w xname flags (init_context w who where' xname type flags) = Inr mc1"
    and "match_here w xname flags mc1 = Inr mc2"
  shows "mc_bestmatch mc2 = NOTHING"
proof -
  have "mc_bestmatch mc1 = NOTHING"
    using assms(1) by (auto simp add: match_me_def init_context_def Let_def split: if_splits)
  then show ?thesis
    using assms(2) by (auto simp add: match_here_def Let_def split: if_splits)
qed

text \<open>Outside the pairs that these calls pass: of two invalid references of which the
  first is not \<^verbatim>\<open>NOTHING\<close>, the function keeps the first.\<close>

lemma choose_thing_keeps_invalid:
  "\<not> GoodObject w a \<Longrightarrow> \<not> GoodObject w b \<Longrightarrow> a \<noteq> NOTHING \<Longrightarrow> choose_thing w who t f a b = a"
  by (simp add: choose_thing_def)

text \<open>
  Claim C4. \<open>choose_thing who type flags a b\<close> decides in this order: (1) when neither
  reference is a good object it returns \<open>b\<close>, unless \<open>b\<close> is \<^verbatim>\<open>NOTHING\<close> and \<open>a\<close> is another
  invalid value, in which case it returns \<open>a\<close>; (2) when exactly one is a good object, that
  one; (3) when a type filter other than \<^verbatim>\<open>NOTYPE\<close> is given and exactly one of the two has
  a type that intersects it, that one; (4) when \<^verbatim>\<open>MAT_CHECK_KEYS\<close> is set and exactly one of
  the two passes \<^verbatim>\<open>could_doit\<close> for the requester, that one; (5) otherwise \<open>b\<close>. Rule (1) is
  stated for the pairs of invalid references of which one is \<^verbatim>\<open>NOTHING\<close> or which are
  equal; these include every pair the function is called with, by the last two parts of
  the statement: the call of line 537 passes \<open>a = NOTHING\<close>, and every candidate of a pool,
  which the call of line 221 passes as \<open>b\<close>, is a good object.
\<close>

theorem choose_thing_order:
  "(\<not> GoodObject w a \<and> \<not> GoodObject w b \<and> (a = NOTHING \<or> b = NOTHING \<or> a = b) \<longrightarrow>
      choose_thing w who t f a b = (if b = NOTHING \<and> a \<noteq> NOTHING then a else b))
   \<and> (GoodObject w a \<and> \<not> GoodObject w b \<longrightarrow> choose_thing w who t f a b = a)
   \<and> (\<not> GoodObject w a \<and> GoodObject w b \<longrightarrow> choose_thing w who t f a b = b)
   \<and> (GoodObject w a \<and> GoodObject w b \<and> t \<noteq> NOTYPE
        \<and> Typeof w a AND t \<noteq> 0 \<and> Typeof w b AND t = 0 \<longrightarrow> choose_thing w who t f a b = a)
   \<and> (GoodObject w a \<and> GoodObject w b \<and> t \<noteq> NOTYPE
        \<and> Typeof w a AND t = 0 \<and> Typeof w b AND t \<noteq> 0 \<longrightarrow> choose_thing w who t f a b = b)
   \<and> (GoodObject w a \<and> GoodObject w b
        \<and> (t = NOTYPE \<or> (Typeof w a AND t \<noteq> 0) = (Typeof w b AND t \<noteq> 0))
        \<and> f AND MAT_CHECK_KEYS \<noteq> 0
        \<and> could_doit w who a \<and> \<not> could_doit w who b \<longrightarrow> choose_thing w who t f a b = a)
   \<and> (GoodObject w a \<and> GoodObject w b
        \<and> (t = NOTYPE \<or> (Typeof w a AND t \<noteq> 0) = (Typeof w b AND t \<noteq> 0))
        \<and> f AND MAT_CHECK_KEYS \<noteq> 0
        \<and> \<not> could_doit w who a \<and> could_doit w who b \<longrightarrow> choose_thing w who t f a b = b)
   \<and> (GoodObject w a \<and> GoodObject w b
        \<and> (t = NOTYPE \<or> (Typeof w a AND t \<noteq> 0) = (Typeof w b AND t \<noteq> 0))
        \<and> (f AND MAT_CHECK_KEYS = 0 \<or> could_doit w who a = could_doit w who b)
        \<longrightarrow> choose_thing w who t f a b = b)
   \<and> (match_me w xname flags (init_context w who where' xname type flags) = Inr mc1
        \<and> match_here w xname flags mc1 = Inr mc2 \<longrightarrow> mc_bestmatch mc2 = NOTHING)
   \<and> (x \<in> set (plan_candidates w plan) \<longrightarrow> GoodObject w x)"
proof -
  have order: "(\<not> GoodObject w a \<and> \<not> GoodObject w b \<and> (a = NOTHING \<or> b = NOTHING \<or> a = b) \<longrightarrow>
      choose_thing w who t f a b = (if b = NOTHING \<and> a \<noteq> NOTHING then a else b))
   \<and> (GoodObject w a \<and> \<not> GoodObject w b \<longrightarrow> choose_thing w who t f a b = a)
   \<and> (\<not> GoodObject w a \<and> GoodObject w b \<longrightarrow> choose_thing w who t f a b = b)
   \<and> (GoodObject w a \<and> GoodObject w b \<and> t \<noteq> NOTYPE
        \<and> Typeof w a AND t \<noteq> 0 \<and> Typeof w b AND t = 0 \<longrightarrow> choose_thing w who t f a b = a)
   \<and> (GoodObject w a \<and> GoodObject w b \<and> t \<noteq> NOTYPE
        \<and> Typeof w a AND t = 0 \<and> Typeof w b AND t \<noteq> 0 \<longrightarrow> choose_thing w who t f a b = b)
   \<and> (GoodObject w a \<and> GoodObject w b
        \<and> (t = NOTYPE \<or> (Typeof w a AND t \<noteq> 0) = (Typeof w b AND t \<noteq> 0))
        \<and> f AND MAT_CHECK_KEYS \<noteq> 0
        \<and> could_doit w who a \<and> \<not> could_doit w who b \<longrightarrow> choose_thing w who t f a b = a)
   \<and> (GoodObject w a \<and> GoodObject w b
        \<and> (t = NOTYPE \<or> (Typeof w a AND t \<noteq> 0) = (Typeof w b AND t \<noteq> 0))
        \<and> f AND MAT_CHECK_KEYS \<noteq> 0
        \<and> \<not> could_doit w who a \<and> could_doit w who b \<longrightarrow> choose_thing w who t f a b = b)
   \<and> (GoodObject w a \<and> GoodObject w b
        \<and> (t = NOTYPE \<or> (Typeof w a AND t \<noteq> 0) = (Typeof w b AND t \<noteq> 0))
        \<and> (f AND MAT_CHECK_KEYS = 0 \<or> could_doit w who a = could_doit w who b)
        \<longrightarrow> choose_thing w who t f a b = b)"
    by (auto simp add: choose_thing_def Let_def)
  have site1: "match_me w xname flags (init_context w who where' xname type flags) = Inr mc1
        \<and> match_here w xname flags mc1 = Inr mc2 \<longrightarrow> mc_bestmatch mc2 = NOTHING"
    using pmatch_call_site by blast
  have site2: "x \<in> set (plan_candidates w plan) \<longrightarrow> GoodObject w x"
    using plan_candidates_good [of w plan] by blast
  show ?thesis using order site1 site2 by blast
qed

subsection \<open>The noisy entry point\<close>

lemma match_result_internal_total:
  "\<exists>r msgs. match_result_internal w who where' xname type flags = Some (r, msgs)"
  by (auto simp add: match_result_internal_def match_search_def general_search_total Let_def
      split: sum.splits prod.splits)

text \<open>
  Claim C9. \<open>noisy_match_result\<close> returns, and what it returns is a good object or
  \<^verbatim>\<open>NOTHING\<close>, never \<^verbatim>\<open>AMBIGUOUS\<close>: whenever the underlying \<open>match_result\<close> (called with
  \<^verbatim>\<open>MAT_NOISY\<close> added) yields a reference that is not a good object, the result is
  \<^verbatim>\<open>NOTHING\<close>.
\<close>

theorem noisy_match_result_never_ambiguous:
  "(\<exists>r msgs. noisy_match_result w who name type flags = Some (r, msgs)
      \<and> (GoodObject w r \<or> r = NOTHING) \<and> r \<noteq> AMBIGUOUS)
   \<and> (match_result w who name type (flags OR MAT_NOISY) = Some (m, ms) \<and> \<not> GoodObject w m
        \<longrightarrow> noisy_match_result w who name type flags = Some (NOTHING, ms))"
proof -
  obtain m' ms' where m: "match_result w who name type (flags OR MAT_NOISY) = Some (m', ms')"
    using match_result_internal_total [of w who who name type "flags OR MAT_NOISY"]
    by (auto simp add: match_result_def)
  have a: "NOTHING \<noteq> AMBIGUOUS" by (simp add: NOTHING_def AMBIGUOUS_def)
  show ?thesis
    using m a AMBIGUOUS_not_good [of w] by (auto simp add: noisy_match_result_def)
qed

subsection \<open>Result classification\<close>


subsection \<open>Proxy candidates\<close>





subsection \<open>The phrase parser\<close>

lemma strncasecmp_eq_hd:
  "strncasecmp_eq name (p # ps) (Suc n) \<Longrightarrow> name \<noteq> [] \<and> tolower_ch (hd name) = tolower_ch p"
  by (cases name) (simp_all add: strncasecmp_eq_def)

lemma strncasecmp_eq_le:
  "strncasecmp_eq a b n \<Longrightarrow> k \<le> n \<Longrightarrow> strncasecmp_eq a b k"
proof -
  assume h: "strncasecmp_eq a b n" and k: "k \<le> n"
  have "take k (map tolower_ch (take n a)) = take k (map tolower_ch (take n b))"
    using h by (simp add: strncasecmp_eq_def)
  then show ?thesis using k by (simp add: strncasecmp_eq_def take_map min_def)
qed

lemma my_not_here:
  assumes "strncasecmp_eq name ''my '' 3 \<or> strncasecmp_eq name ''me '' 3"
  shows "\<not> strncasecmp_eq name ''this here '' 10 \<and> \<not> strncasecmp_eq name ''here '' 5
     \<and> \<not> strncasecmp_eq name ''this '' 5"
proof -
  have m: "tolower_ch (hd name) = CHR ''m''"
    using assms strncasecmp_eq_hd [of name "CHR ''m''" "''y ''" 2]
      strncasecmp_eq_hd [of name "CHR ''m''" "''e ''" 2]
    by (auto simp add: eval_nat_numeral tolower_ch_def)
  show ?thesis
    using m strncasecmp_eq_hd [of name "CHR ''t''" "''his here ''" 9]
      strncasecmp_eq_hd [of name "CHR ''h''" "''ere ''" 4]
      strncasecmp_eq_hd [of name "CHR ''t''" "''his ''" 4]
    by (auto simp add: eval_nat_numeral tolower_ch_def)
qed

lemma toward_not_other:
  assumes "strncasecmp_eq name ''toward '' 7"
  shows "\<not> strncasecmp_eq name ''this here '' 10 \<and> \<not> strncasecmp_eq name ''here '' 5
     \<and> \<not> strncasecmp_eq name ''this '' 5 \<and> \<not> strncasecmp_eq name ''my '' 3
     \<and> \<not> strncasecmp_eq name ''me '' 3"
proof -
  have t: "map tolower_ch (take 2 name) = ''to''"
    using strncasecmp_eq_le [OF assms, of 2] by (simp add: strncasecmp_eq_def tolower_ch_def)
  have a: "\<not> strncasecmp_eq name ''this here '' 10"
  proof
    assume "strncasecmp_eq name ''this here '' 10"
    then have "strncasecmp_eq name ''this here '' 2" by (rule strncasecmp_eq_le) simp
    then show False using t by (simp add: strncasecmp_eq_def tolower_ch_def)
  qed
  have b: "\<not> strncasecmp_eq name ''this '' 5"
  proof
    assume "strncasecmp_eq name ''this '' 5"
    then have "strncasecmp_eq name ''this '' 2" by (rule strncasecmp_eq_le) simp
    then show False using t by (simp add: strncasecmp_eq_def tolower_ch_def)
  qed
  have c: "\<not> strncasecmp_eq name ''here '' 5"
  proof
    assume "strncasecmp_eq name ''here '' 5"
    then have "strncasecmp_eq name ''here '' 2" by (rule strncasecmp_eq_le) simp
    then show False using t by (simp add: strncasecmp_eq_def tolower_ch_def)
  qed
  have d: "\<not> strncasecmp_eq name ''my '' 3"
  proof
    assume "strncasecmp_eq name ''my '' 3"
    then have "strncasecmp_eq name ''my '' 2" by (rule strncasecmp_eq_le) simp
    then show False using t by (simp add: strncasecmp_eq_def tolower_ch_def)
  qed
  have e: "\<not> strncasecmp_eq name ''me '' 3"
  proof
    assume "strncasecmp_eq name ''me '' 3"
    then have "strncasecmp_eq name ''me '' 2" by (rule strncasecmp_eq_le) simp
    then show False using t by (simp add: strncasecmp_eq_def tolower_ch_def)
  qed
  show ?thesis using a b c d e by simp
qed

lemma digit_not_adjective:
  assumes "name \<noteq> []" "isdigit (hd name)"
  shows "\<not> strncasecmp_eq name ''this here '' 10 \<and> \<not> strncasecmp_eq name ''here '' 5
     \<and> \<not> strncasecmp_eq name ''this '' 5 \<and> \<not> strncasecmp_eq name ''my '' 3
     \<and> \<not> strncasecmp_eq name ''me '' 3 \<and> \<not> strncasecmp_eq name ''toward '' 7"
proof -
  have d: "tolower_ch (hd name) \<in> set ''0123456789''"
    using assms(2) by (auto simp add: isdigit_def tolower_ch_def)
  show ?thesis
    using d strncasecmp_eq_hd [of name "CHR ''t''" "''his here ''" 9]
      strncasecmp_eq_hd [of name "CHR ''h''" "''ere ''" 4]
      strncasecmp_eq_hd [of name "CHR ''t''" "''his ''" 4]
      strncasecmp_eq_hd [of name "CHR ''m''" "''y ''" 2]
      strncasecmp_eq_hd [of name "CHR ''m''" "''e ''" 2]
      strncasecmp_eq_hd [of name "CHR ''t''" "''oward ''" 6]
    by (auto simp add: eval_nat_numeral tolower_ch_def)
qed

lemma parse_english_reset:
  "fst (restriction_adjectives name flags) = [] \<Longrightarrow>
     parse_english name flags = (0, name, scast (ucast flags :: 32 word))"
  by (simp add: parse_english_def Let_def case_prod_beta)

lemma parse_english_flags_noreset:
  "fst (restriction_adjectives name flags) \<noteq> [] \<Longrightarrow>
     snd (snd (parse_english name flags)) = snd (restriction_adjectives name flags)"
  by (simp add: parse_english_def Let_def case_prod_beta)


lemma adj_here_mono: "snd nf AND b = 0 \<Longrightarrow> snd (adj_here nf) AND b = 0"
  by (simp add: adj_here_def Let_def mask_mono del: bit.de_Morgan_disj)

lemma adj_my_mono: "snd nf AND b = 0 \<Longrightarrow> snd (adj_my nf) AND b = 0"
  by (simp add: adj_my_def Let_def mask_mono del: bit.de_Morgan_disj)

lemma adj_toward_mono: "snd nf AND b = 0 \<Longrightarrow> snd (adj_toward nf) AND b = 0"
  by (simp add: adj_toward_def Let_def mask_mono del: bit.de_Morgan_disj)





lemma my_clears_exit:
  assumes "flags AND MAT_POSSESSION \<noteq> 0"
    and "strncasecmp_eq name ''my '' 3 \<or> strncasecmp_eq name ''me '' 3"
    and "fst (restriction_adjectives name flags) \<noteq> []"
  shows "snd (snd (parse_english name flags)) AND MAT_EXIT = 0"
proof -
  let ?f2 = "flags AND NOT (MAT_NEIGHBOR OR MAT_EXIT OR MAT_CONTAINER OR MAT_REMOTE_CONTENTS)"
  have h: "adj_here (name, flags) = (name, flags)"
    using my_not_here [OF assms(2)] by (simp add: adj_here_def Let_def)
  have m: "adj_my (name, flags) = (drop 3 name, ?f2)"
    using assms(1,2) by (simp add: adj_my_def Let_def del: bit.de_Morgan_disj)
  have e: "?f2 AND MAT_EXIT = 0"
    by (rule mask_clear)
       (simp add: MAT_NEIGHBOR_def MAT_EXIT_def MAT_CONTAINER_def MAT_REMOTE_CONTENTS_def)
  have "snd (restriction_adjectives name flags) AND MAT_EXIT = 0"
    using adj_toward_mono [of "(drop 3 name, ?f2)" MAT_EXIT] e
    by (simp add: restriction_adjectives_def Let_def h m)
  then show ?thesis using parse_english_flags_noreset [OF assms(3)] by simp
qed

lemma toward_clears_possession:
  assumes "flags AND (MAT_EXIT OR MAT_CARRIED_EXIT) \<noteq> 0"
    and "strncasecmp_eq name ''toward '' 7"
    and "fst (restriction_adjectives name flags) \<noteq> []"
  shows "snd (snd (parse_english name flags)) AND (MAT_POSSESSION OR MAT_REMOTE_CONTENTS) = 0"
proof -
  let ?f3 = "flags AND NOT (MAT_NEIGHBOR OR MAT_POSSESSION OR MAT_CONTAINER OR MAT_REMOTE_CONTENTS)"
  have h: "adj_here (name, flags) = (name, flags)"
    using toward_not_other [OF assms(2)] by (simp add: adj_here_def Let_def)
  have m: "adj_my (name, flags) = (name, flags)"
    using toward_not_other [OF assms(2)] by (simp add: adj_my_def Let_def)
  have t: "adj_toward (name, flags) = (drop 7 name, ?f3)"
    using assms(1,2) by (simp add: adj_toward_def Let_def del: bit.de_Morgan_disj)
  have e: "?f3 AND (MAT_POSSESSION OR MAT_REMOTE_CONTENTS) = 0"
    by (rule mask_clear)
       (simp add: MAT_NEIGHBOR_def MAT_POSSESSION_def MAT_CONTAINER_def MAT_REMOTE_CONTENTS_def)
  have "snd (restriction_adjectives name flags) AND (MAT_POSSESSION OR MAT_REMOTE_CONTENTS) = 0"
    using e by (simp add: restriction_adjectives_def Let_def h m t)
  then show ?thesis using parse_english_flags_noreset [OF assms(3)] by simp
qed

subsection \<open>Malformed ordinals\<close>

lemma digit_val_nonneg: "isdigit c \<Longrightarrow> 0 \<le> digit_val c"
  by (auto simp add: isdigit_def digit_val_def)

lemma foldl_digits_nonneg:
  "0 \<le> a \<Longrightarrow> \<forall>c \<in> set xs. isdigit c \<Longrightarrow> 0 \<le> foldl (\<lambda>v c. 10 * v + digit_val c) a xs"
proof (induction xs arbitrary: a)
  case Nil
  then show ?case by simp
next
  case (Cons x xs)
  have "0 \<le> 10 * a + digit_val x" using Cons.prems digit_val_nonneg [of x] by simp
  then show ?case using Cons by simp
qed

lemma digit_run_value_nonneg: "0 \<le> digit_run_value s"
  unfolding digit_run_value_def
  by (rule foldl_digits_nonneg) (auto dest: set_takeWhileD)

lemma int_of_small_ulong:
  assumes "0 \<le> v" "v < 2 ^ 31"
  shows "sint (word_of_int (min v ULONG_MAX) :: 32 word) = v"
proof -
  have "min v ULONG_MAX = v" using assms by (simp add: ULONG_MAX_def)
  moreover have "sint (word_of_int v :: 32 word) = v"
    using assms by (simp add: sint_sbintrunc' signed_take_bit_int_eq_self)
  ultimately show ?thesis by simp
qed

lemma ordinal_suffix_not_empty: "ordinal_suffix n \<noteq> []"
  by (simp add: ordinal_suffix_def)

lemma count_adjective_small:
  assumes "digit_run_value tok < 2 ^ 31"
  shows "count_adjective tok = (if agreeing_ordinal tok then digit_run_value tok else - 1)"
proof -
  let ?v = "digit_run_value tok"
  let ?e = "dropWhile isdigit tok"
  have c: "sint (word_of_int (min ?v ULONG_MAX) :: 32 word) = ?v"
    using int_of_small_ulong [OF digit_run_value_nonneg assms] .
  have e: "\<not> agreeing_ordinal tok" if "?e = []"
  proof
    assume "agreeing_ordinal tok"
    then have "map tolower_ch ?e = map tolower_ch (ordinal_suffix ?v)"
      by (simp add: agreeing_ordinal_def strcasecmp_eq_def)
    then have "ordinal_suffix ?v = []" using that by (simp only: list.map map_is_Nil_conv Nil_is_map_conv)
    then show False using ordinal_suffix_not_empty [of ?v] by simp
  qed
  show ?thesis
  proof (cases "?e = []")
    case True
    then show ?thesis using e c by (simp add: count_adjective_def strtoul_def Let_def)
  next
    case False
    have "0 \<le> ?v" by (rule digit_run_value_nonneg)
    then show ?thesis
      using False c
      by (auto simp add: count_adjective_def strtoul_def Let_def agreeing_ordinal_def
          ordinal_suffix_def)
  qed
qed

lemma restriction_adjectives_digit:
  assumes "name \<noteq> []" "isdigit (hd name)"
  shows "restriction_adjectives name flags = (name, flags)"
proof -
  have sp: "hd name \<noteq> CHR '' ''" using assms(2) by (auto simp add: isdigit_def)
  have dw: "dropWhile (\<lambda>c. c = CHR '' '') name = name"
    using assms(1) sp by (cases name) simp_all
  show ?thesis
    using digit_not_adjective [OF assms] dw
    by (simp add: restriction_adjectives_def adj_here_def adj_my_def adj_toward_def Let_def)
qed

text \<open>
  Claim C5, as the code has it. Where the text that follows the restriction adjectives
  (and the spaces after them) starts with a digit and either contains no space or has a
  first token that is not an agreeing ordinal, \<open>parse_english\<close> returns count 0 and leaves
  the text at the start of that token and the flags as the adjectives left them. Both
  are the original text and flags when the phrase itself starts with the digit. The
  digit run is taken to fit an \<^verbatim>\<open>int\<close>: nothing is said about longer ones.
\<close>

theorem malformed_ordinal_is_no_count:
  assumes "restriction_adjectives name flags = (name', flags')"
    and "name' \<noteq> []" and "isdigit (hd name')"
    and "CHR '' '' \<notin> set name'
         \<or> (digit_run_value (takeWhile (\<lambda>c. c \<noteq> CHR '' '') name') < 2 ^ 31
            \<and> \<not> agreeing_ordinal (takeWhile (\<lambda>c. c \<noteq> CHR '' '') name'))"
  shows "parse_english name flags = (0, name', flags')
     \<and> (name \<noteq> [] \<and> isdigit (hd name) \<longrightarrow> name' = name \<and> flags' = flags)"
proof -
  let ?tok = "takeWhile (\<lambda>c. c \<noteq> CHR '' '') name'"
  have "CHR '' '' \<in> set name' \<Longrightarrow> count_adjective ?tok < 0"
    using assms(4) count_adjective_small [of ?tok] by auto
  then have a: "parse_english name flags = (0, name', flags')"
    using assms(1,2,3) by (auto simp add: parse_english_def Let_def)
  have b: "name \<noteq> [] \<and> isdigit (hd name) \<longrightarrow> name' = name \<and> flags' = flags"
    using restriction_adjectives_digit [of name flags] assms(1) by auto
  show ?thesis using a b by simp
qed

subsection \<open>Pools left out after a restriction adjective\<close>

lemma run_plan_pools: "set (fst (snd (run_plan w plan mc))) \<subseteq> fst ` set plan"
proof (induction plan arbitrary: mc)
  case Nil
  then show ?case by simp
next
  case (Cons pv vs)
  obtain p v where pv: "pv = (p, v)" by (cases pv)
  have ih: "\<And>m c ps m'. run_plan w vs m = (c, ps, m') \<Longrightarrow> set ps \<subseteq> fst ` set vs"
    using Cons.IH by (metis fst_conv snd_conv)
  show ?case
  proof (cases v)
    case (Obj_List start)
    then show ?thesis using pv by (auto split: prod.splits dest: ih)
  next
    case (Attr_List container)
    then show ?thesis using pv by (auto split: prod.splits dest: ih)
  qed
qed

lemma match_search_pools:
  assumes "match_search w mc = Some (ps, mc')"
  shows "set ps \<subseteq> fst ` set (search_plan w (mc_where mc) (match_loc w (mc_where mc))
     (RealGoodObject w (mc_where mc)) (mc_type mc) (mc_flags mc))"
proof -
  let ?plan = "search_plan w (mc_where mc) (match_loc w (mc_where mc))
     (RealGoodObject w (mc_where mc)) (mc_type mc) (mc_flags mc)"
  have "ps = fst (snd (run_plan w ?plan mc))"
    using assms by (simp add: match_search_def general_search_total)
  then show ?thesis using run_plan_pools [of w ?plan mc] by simp
qed

lemma search_plan_exit_pools:
  assumes "p \<in> fst ` set (search_plan w where' loc goodwhere type flags)"
    and "p = Room_Exits \<or> p = Zone_Exits \<or> p = Master_Exits"
  shows "flags AND MAT_EXIT \<noteq> 0"
  using assms by (auto simp add: search_plan_def split: if_splits)

lemma search_plan_possession_pools:
  assumes "p \<in> fst ` set (search_plan w where' loc goodwhere type flags)"
    and "p = Possessions \<or> p = Possession_Proxies"
  shows "flags AND (MAT_POSSESSION OR MAT_REMOTE_CONTENTS) \<noteq> 0"
  using assms by (auto simp add: search_plan_def split: if_splits)


text \<open>
  The pools that the restriction adjectives do close. In a call with \<^verbatim>\<open>MAT_ENGLISH\<close> that
  reaches the general search, where the restriction adjective is followed by a name:
  after \<^verbatim>\<open>"my "\<close> (or \<^verbatim>\<open>"me "\<close>) with \<^verbatim>\<open>MAT_POSSESSION\<close> set, the search visits none of the
  room's exits, the zone's exits and the master room's exits; after \<^verbatim>\<open>"toward "\<close> with
  \<^verbatim>\<open>MAT_EXIT\<close> or \<^verbatim>\<open>MAT_CARRIED_EXIT\<close> set, it visits neither the possessions nor their
  proxies.
\<close>

lemma restriction_adjectives_exclude_pools:
  assumes "flags AND MAT_ENGLISH \<noteq> 0"
    and "match_prologue w who where' xname type flags = Inr mc"
    and "match_search w mc = Some (ps, mc')"
    and "fst (restriction_adjectives xname flags) \<noteq> []"
  shows "(flags AND MAT_POSSESSION \<noteq> 0
          \<and> (strncasecmp_eq xname ''my '' 3 \<or> strncasecmp_eq xname ''me '' 3) \<longrightarrow>
            Room_Exits \<notin> set ps \<and> Zone_Exits \<notin> set ps \<and> Master_Exits \<notin> set ps)
     \<and> (flags AND (MAT_EXIT OR MAT_CARRIED_EXIT) \<noteq> 0 \<and> strncasecmp_eq xname ''toward '' 7 \<longrightarrow>
            Possessions \<notin> set ps \<and> Possession_Proxies \<notin> set ps)"
proof -
  have fl: "mc_flags mc = snd (snd (parse_english xname flags))"
    using match_prologue_fields [OF assms(2)] assms(1) by (simp add: english_result_def)
  note sub = match_search_pools [OF assms(3)]
  have a: "Room_Exits \<notin> set ps \<and> Zone_Exits \<notin> set ps \<and> Master_Exits \<notin> set ps"
    if "flags AND MAT_POSSESSION \<noteq> 0"
      "strncasecmp_eq xname ''my '' 3 \<or> strncasecmp_eq xname ''me '' 3"
  proof -
    have "mc_flags mc AND MAT_EXIT = 0"
      using my_clears_exit [OF that assms(4)] fl by simp
    then show ?thesis using sub search_plan_exit_pools by blast
  qed
  have b: "Possessions \<notin> set ps \<and> Possession_Proxies \<notin> set ps"
    if "flags AND (MAT_EXIT OR MAT_CARRIED_EXIT) \<noteq> 0" "strncasecmp_eq xname ''toward '' 7"
  proof -
    have "mc_flags mc AND (MAT_POSSESSION OR MAT_REMOTE_CONTENTS) = 0"
      using toward_clears_possession [OF that assms(4)] fl by simp
    then show ?thesis using sub search_plan_possession_pools by blast
  qed
  show ?thesis using a b by blast
qed

subsection \<open>Exact matches take precedence\<close>

lemma full_match_setup: "same_setup mc0 mc \<Longrightarrow> full_match w mc x = full_match w mc0 x"
  by (simp add: full_match_def same_setup_def MATCH_TYPE_def exact_name_def)

lemma matched_full_inv:
  assumes "exact_inv w mc0 mc" "GoodObject w (mc_match mc)" "full_match w mc0 (mc_match mc)"
  shows "exact_inv w mc0 (snd (matched w 1 mc))"
proof -
  have c: "BEST_MATCH w mc = mc_bestmatch mc \<or> BEST_MATCH w mc = mc_match mc"
    using choose_thing_cases [of w "mc_who mc" "mc_type mc" "mc_flags mc" "mc_bestmatch mc" "mc_match mc"]
    by (simp add: BEST_MATCH_def)
  show ?thesis
    using assms c matched_setup [of mc0 mc w 1]
    by (auto simp add: exact_inv_def matched_def Let_def)
qed

lemma matched_partial_inv:
  assumes "exact_inv w mc0 mc" "mc_exact mc = 0"
  shows "exact_inv w mc0 (snd (matched w 0 mc))"
  using assms matched_setup [of mc0 mc w 0]
  by (auto simp add: exact_inv_def matched_def Let_def)

lemma exact_inv_match: "exact_inv w mc0 mc \<Longrightarrow> exact_inv w mc0 (mc\<lparr>mc_match := x\<rparr>)"
  by (simp add: exact_inv_def same_setup_def)

lemma eval_candidate_exact_inv:
  assumes "exact_inv w mc0 mc" "GoodObject w x"
  shows "exact_inv w mc0 (snd (eval_candidate w x mc))"
proof -
  let ?m = "mc\<lparr>mc_match := x\<rparr>"
  have i: "exact_inv w mc0 ?m" using assms(1) by (rule exact_inv_match)
  have s: "same_setup mc0 ?m" using i by (simp add: exact_inv_def)
  have f: "full_match w mc0 x = full_match w mc x"
    using assms(1) full_match_setup [of mc0 mc w x] by (simp add: exact_inv_def)
  have full: "MATCH_TYPE w ?m \<noteq> 0 \<Longrightarrow> mc_match ?m = mc_abs ?m \<or>
      (can_interact w (mc_match ?m) (mc_who ?m) \<and> exact_name w ?m) \<Longrightarrow>
      exact_inv w mc0 (snd (matched w 1 ?m))"
    using matched_full_inv [OF i] assms(2) f by (auto simp add: full_match_def)
  have part: "partial_name w ?m \<Longrightarrow> exact_inv w mc0 (snd (matched w 0 ?m))"
    using matched_partial_inv [OF i] i by (auto simp add: partial_name_def exact_inv_def)
  show ?thesis
    using i full part by (auto simp add: eval_candidate_def Let_def)
qed

lemma match_search_exact_inv:
  assumes "match_search w mc = Some (ps, mc')" "mc_final mc = 0" "mc_exact mc = 0"
  shows "exact_inv w mc mc'"
proof (rule match_search_preserves [of "exact_inv w mc" w mc ps mc'])
  show "exact_inv w mc mc" using assms(2,3) by (simp add: exact_inv_def same_setup_def)
qed (simp_all add: eval_candidate_exact_inv exact_inv_match assms(1))

lemma matched_first_exact_counters:
  assumes "mc_final m = 0" "mc_exact m = 0" "MATCH_CONTROLS w m" "BEST_MATCH w m = mc_match m"
  shows "mc_exact (snd (matched w 1 m)) = 1 \<and> mc_curr (snd (matched w 1 m)) = 1
     \<and> mc_right_type (snd (matched w 1 m))
         = (if mc_type m \<noteq> NOTYPE \<and> Typeof w (mc_match m) AND mc_type m \<noteq> 0 then 1 else 0)"
  using assms by (simp add: matched_def Let_def)

lemma matched_exact_latch: "mc_exact m \<noteq> 0 \<Longrightarrow> mc_exact (snd (matched w full m)) \<noteq> 0"
  by (simp add: matched_def Let_def)

lemma eval_candidate_exact_latch:
  "mc_exact m \<noteq> 0 \<Longrightarrow> mc_exact (snd (eval_candidate w x m)) \<noteq> 0"
  using eval_candidate_cases [of w x m] matched_exact_latch [of "m\<lparr>mc_match := x\<rparr>" w]
  by auto

lemma eval_candidate_not_full:
  assumes "mc_exact m \<noteq> 0" "GoodObject w (mc_bestmatch m)" "\<not> full_match w m x"
  shows "snd (eval_candidate w x m) = m\<lparr>mc_match := x\<rparr>"
  using assms by (auto simp add: eval_candidate_def full_match_def partial_name_def Let_def)

text \<open>
  Claim C1. In a call that reaches the general search without an ordinal target: if the
  search ends with the exact latch set, the result is \<^verbatim>\<open>AMBIGUOUS\<close> or a good object that
  was a full match (the absolute reference, an alias or the whole name), never a
  candidate that matched only partially; once the latch is set with a good best match,
  evaluating a candidate that is not a full match changes nothing but \<^verbatim>\<open>mc->match\<close>, and
  the latch stays set; and the call of \<^verbatim>\<open>matched\<close> that sets the latch sets the match
  count to 1 and the preferred-type count to 0, then counts the exact match itself.
\<close>

theorem exact_match_precedence:
  assumes "match_prologue w who where' xname type flags = Inr mc"
    and "mc_final mc = 0"
    and "match_search w mc = Some (ps, mc')"
  shows "(mc_exact mc' \<noteq> 0 \<longrightarrow>
            (\<exists>r msgs. match_result_internal w who where' xname type flags = Some (r, msgs)
               \<and> (r = AMBIGUOUS \<or> (GoodObject w r \<and> full_match w mc r))))
     \<and> (mc_exact m \<noteq> 0 \<and> GoodObject w (mc_bestmatch m) \<and> \<not> full_match w m x \<longrightarrow>
            snd (eval_candidate w x m) = m\<lparr>mc_match := x\<rparr>)
     \<and> (mc_exact m \<noteq> 0 \<longrightarrow> mc_exact (snd (eval_candidate w x m)) \<noteq> 0)
     \<and> (mc_final m = 0 \<and> mc_exact m = 0 \<and> MATCH_CONTROLS w m \<and> BEST_MATCH w m = mc_match m \<longrightarrow>
            mc_exact (snd (matched w 1 m)) = 1 \<and> mc_curr (snd (matched w 1 m)) = 1
            \<and> mc_right_type (snd (matched w 1 m))
                = (if mc_type m \<noteq> NOTYPE \<and> Typeof w (mc_match m) AND mc_type m \<noteq> 0 then 1 else 0))"
proof -
  have e0: "mc_exact mc = 0" using match_prologue_fields [OF assms(1)] by simp
  have inv: "exact_inv w mc mc'" using assms(3,2) e0 by (rule match_search_exact_inv)
  have fin: "mc_final mc' = 0" using inv by (simp add: exact_inv_def)
  have a: "mc_exact mc' \<noteq> 0 \<longrightarrow>
            (\<exists>r msgs. match_result_internal w who where' xname type flags = Some (r, msgs)
               \<and> (r = AMBIGUOUS \<or> (GoodObject w r \<and> full_match w mc r)))"
    using assms(1,3) inv fin
    by (auto simp add: match_result_internal_def match_classify_def exact_inv_def Let_def)
  show ?thesis
    using a eval_candidate_not_full [of m w x] eval_candidate_exact_latch [of m w x]
      matched_first_exact_counters [of m w]
    by blast
qed

subsection \<open>The enumerators as a scan of the candidates\<close>

lemma eval_candidate_stop:
  "mc_done mc = 0 \<Longrightarrow>
     fst (eval_candidate w x mc) = (mc_done (snd (eval_candidate w x mc)) \<noteq> 0)"
  by (auto simp add: eval_candidate_def matched_def Let_def)

lemma scan_done: "mc_done mc \<noteq> 0 \<Longrightarrow> scan w xs mc = mc"
  by (cases xs) simp_all

lemma scan_append: "scan w (xs @ ys) mc = scan w ys (scan w xs mc)"
proof (induction xs arbitrary: mc)
  case Nil
  then show ?case by simp
next
  case (Cons x xs)
  then show ?case by (simp add: scan_done)
qed

lemma eval_candidate_match: "eval_candidate w x (mc\<lparr>mc_match := y\<rparr>) = eval_candidate w x mc"
  by (simp add: eval_candidate_def)

lemma scan_match: "mc_done mc = 0 \<Longrightarrow> xs \<noteq> [] \<Longrightarrow> scan w xs (mc\<lparr>mc_match := y\<rparr>) = scan w xs mc"
  by (cases xs) (simp_all add: eval_candidate_match)

lemma match_obj_loop_scan:
  "mc_done mc = 0 \<Longrightarrow>
     match_obj_loop w t xs mc =
       (if mc_done (scan w xs mc) \<noteq> 0 then scan w xs mc else (scan w xs mc)\<lparr>mc_match := t\<rparr>)"
proof (induction xs arbitrary: mc)
  case Nil
  then show ?case by simp
next
  case (Cons x xs)
  show ?case
  proof (cases "fst (eval_candidate w x mc)")
    case True
    then have "mc_done (snd (eval_candidate w x mc)) \<noteq> 0"
      using eval_candidate_stop [OF Cons.prems] by simp
    then show ?thesis using True Cons.prems by (simp add: match_obj_loop_Cons scan_done)
  next
    case False
    then have d: "mc_done (snd (eval_candidate w x mc)) = 0"
      using eval_candidate_stop [OF Cons.prems] by simp
    show ?thesis using False Cons.prems Cons.IH [OF d] by (simp add: match_obj_loop_Cons)
  qed
qed

lemma atr_iter_get_parent_scan:
  "snd (atr_iter_get_parent w as mc) = scan w (map fst (filter (valid_proxy w) as)) mc"
proof (induction as arbitrary: mc)
  case Nil
  then show ?case by simp
next
  case (Cons a as)
  show ?case
  proof (cases "mc_done mc \<noteq> 0")
    case True
    then show ?thesis
      using Cons.IH [of mc]
      by (simp add: atr_iter_get_parent_Cons match_attr_helper_eval scan_done
          del: atr_iter_get_parent.simps)
  next
    case False
    then show ?thesis
      using Cons.IH
      by (simp add: atr_iter_get_parent_Cons match_attr_helper_eval
          del: atr_iter_get_parent.simps)
  qed
qed

text \<open>Two contexts that differ at most in \<^verbatim>\<open>mc->match\<close>, and agree on it once the latch
  is set.\<close>

lemma visit_scan:
  assumes "r\<lparr>mc_match := y\<rparr> = s\<lparr>mc_match := y\<rparr>" and "mc_done s \<noteq> 0 \<longrightarrow> r = s"
  shows "(snd (match_obj_list w start r))\<lparr>mc_match := y\<rparr> = (scan w (dolist w start) s)\<lparr>mc_match := y\<rparr>
       \<and> (mc_done (scan w (dolist w start) s) \<noteq> 0 \<longrightarrow>
            snd (match_obj_list w start r) = scan w (dolist w start) s)"
    and "(snd (match_attr_list w obj r))\<lparr>mc_match := y\<rparr>
          = (scan w (map fst (filter (valid_proxy w) (generic_attrs w obj))) s)\<lparr>mc_match := y\<rparr>
       \<and> (mc_done (scan w (map fst (filter (valid_proxy w) (generic_attrs w obj))) s) \<noteq> 0 \<longrightarrow>
            snd (match_attr_list w obj r) = scan w (map fst (filter (valid_proxy w) (generic_attrs w obj))) s)"
proof -
  have d: "mc_done r = mc_done s"
    using assms(1) by (metis match_context.select_convs(13) match_context.surjective match_context.update_convs(1))
  have e: "\<And>x. eval_candidate w x r = eval_candidate w x s"
    using assms(1) eval_candidate_match by metis
  have sc: "\<And>xs. xs \<noteq> [] \<Longrightarrow> mc_done s = 0 \<Longrightarrow> scan w xs r = scan w xs s"
  proof -
    fix xs :: "dbref list" assume "xs \<noteq> []" "mc_done s = 0"
    then show "scan w xs r = scan w xs s" using d e by (cases xs) simp_all
  qed
  show "(snd (match_obj_list w start r))\<lparr>mc_match := y\<rparr> = (scan w (dolist w start) s)\<lparr>mc_match := y\<rparr>
       \<and> (mc_done (scan w (dolist w start) s) \<noteq> 0 \<longrightarrow>
            snd (match_obj_list w start r) = scan w (dolist w start) s)"
  proof (cases "mc_done s \<noteq> 0")
    case True
    then show ?thesis using assms d by (simp add: match_obj_list_def scan_done)
  next
    case False
    show ?thesis
    proof (cases "dolist w start = []")
      case True
      then show ?thesis using False d assms(1) by (simp add: match_obj_list_def)
    next
      case ne: False
      have "scan w (dolist w start) (r\<lparr>mc_match := start\<rparr>) = scan w (dolist w start) s"
        using sc [OF ne] False d ne by (simp add: scan_match)
      then show ?thesis using False d by (simp add: match_obj_list_def match_obj_loop_scan)
    qed
  qed
  show "(snd (match_attr_list w obj r))\<lparr>mc_match := y\<rparr>
          = (scan w (map fst (filter (valid_proxy w) (generic_attrs w obj))) s)\<lparr>mc_match := y\<rparr>
       \<and> (mc_done (scan w (map fst (filter (valid_proxy w) (generic_attrs w obj))) s) \<noteq> 0 \<longrightarrow>
            snd (match_attr_list w obj r) = scan w (map fst (filter (valid_proxy w) (generic_attrs w obj))) s)"
  proof (cases "mc_done s \<noteq> 0")
    case True
    then show ?thesis using assms d by (simp add: match_attr_list_def scan_done)
  next
    case False
    let ?xs = "map fst (filter (valid_proxy w) (generic_attrs w obj))"
    show ?thesis
    proof (cases "?xs = []")
      case True
      then show ?thesis
        using False d assms(1) by (simp add: match_attr_list_def atr_iter_get_parent_scan Let_def)
    next
      case ne: False
      have "scan w ?xs r = scan w ?xs s" using sc [OF ne] False by simp
      then show ?thesis
        using False d by (simp add: match_attr_list_def atr_iter_get_parent_scan Let_def)
    qed
  qed
qed

lemma run_plan_scan:
  assumes "r\<lparr>mc_match := y\<rparr> = s\<lparr>mc_match := y\<rparr>" and "mc_done s \<noteq> 0 \<longrightarrow> r = s"
  shows "(snd (snd (run_plan w plan r)))\<lparr>mc_match := y\<rparr>
           = (scan w (plan_candidates w plan) s)\<lparr>mc_match := y\<rparr>
       \<and> (mc_done (scan w (plan_candidates w plan) s) \<noteq> 0 \<longrightarrow>
            snd (snd (run_plan w plan r)) = scan w (plan_candidates w plan) s)"
  using assms
proof (induction plan arbitrary: r s)
  case Nil
  then show ?case by (simp add: plan_candidates_def)
next
  case (Cons pv vs)
  obtain p v where pv: "pv = (p, v)" by (cases pv)
  have d: "mc_done r = mc_done s"
    using Cons.prems(1)
    by (metis match_context.select_convs(13) match_context.surjective match_context.update_convs(1))
  have pc: "plan_candidates w (pv # vs) = visit_candidates w v @ plan_candidates w vs"
    using pv by (simp add: plan_candidates_def)
  show ?case
  proof (cases "mc_done s \<noteq> 0")
    case True
    then have rs: "r = s" using Cons.prems(2) by simp
    have "snd (snd (run_plan w (pv # vs) r)) = r"
      using True d pv by (cases v) (simp_all add: match_obj_list_def match_attr_list_def)
    then show ?thesis using True rs by (simp add: scan_done)
  next
    case False
    let ?s1 = "scan w (visit_candidates w v) s"
    show ?thesis
    proof (cases v)
      case (Obj_List start)
      let ?r1 = "snd (match_obj_list w start r)"
      have v1: "?r1\<lparr>mc_match := y\<rparr> = ?s1\<lparr>mc_match := y\<rparr>" "mc_done ?s1 \<noteq> 0 \<longrightarrow> ?r1 = ?s1"
        using visit_scan(1) [OF Cons.prems, of w start] Obj_List by simp_all
      have run: "snd (snd (run_plan w (pv # vs) r)) = snd (snd (run_plan w vs ?r1))"
        using False d pv Obj_List by (simp add: match_obj_list_def split: prod.splits)
      show ?thesis
        using Cons.IH [OF v1] run pc by (simp add: scan_append)
    next
      case (Attr_List container)
      let ?r1 = "snd (match_attr_list w container r)"
      have v1: "?r1\<lparr>mc_match := y\<rparr> = ?s1\<lparr>mc_match := y\<rparr>" "mc_done ?s1 \<noteq> 0 \<longrightarrow> ?r1 = ?s1"
        using visit_scan(2) [OF Cons.prems, of w container] Attr_List by simp_all
      have d1: "mc_done ?r1 = mc_done ?s1"
        using v1(1)
        by (metis match_context.select_convs(13) match_context.surjective match_context.update_convs(1))
      show ?thesis
      proof (cases "fst (match_attr_list w container r) \<noteq> 0")
        case True
        then have dr: "mc_done ?r1 \<noteq> 0"
          by (auto simp add: match_attr_list_def Let_def split: if_splits)
        have run: "snd (snd (run_plan w (pv # vs) r)) = ?r1"
          using True pv Attr_List by (auto split: prod.splits)
        show ?thesis using run dr d1 v1 pc by (simp add: scan_append scan_done)
      next
        case nz: False
        have run: "snd (snd (run_plan w (pv # vs) r)) = snd (snd (run_plan w vs ?r1))"
          using nz pv Attr_List by (auto split: prod.splits)
        show ?thesis using Cons.IH [OF v1] run pc by (simp add: scan_append)
      qed
    qed
  qed
qed

lemma match_search_scan:
  assumes "match_search w mc = Some (ps, mc')"
  shows "mc'\<lparr>mc_match := y\<rparr>
           = (scan w (plan_candidates w (search_plan w (mc_where mc) (match_loc w (mc_where mc))
                (RealGoodObject w (mc_where mc)) (mc_type mc) (mc_flags mc))) mc)\<lparr>mc_match := y\<rparr>
     \<and> (mc_done (scan w (plan_candidates w (search_plan w (mc_where mc) (match_loc w (mc_where mc))
                (RealGoodObject w (mc_where mc)) (mc_type mc) (mc_flags mc))) mc) \<noteq> 0 \<longrightarrow>
          mc' = scan w (plan_candidates w (search_plan w (mc_where mc) (match_loc w (mc_where mc))
                (RealGoodObject w (mc_where mc)) (mc_type mc) (mc_flags mc))) mc)"
proof -
  let ?plan = "search_plan w (mc_where mc) (match_loc w (mc_where mc))
     (RealGoodObject w (mc_where mc)) (mc_type mc) (mc_flags mc)"
  have "mc' = snd (snd (run_plan w ?plan mc))"
    using assms by (simp add: match_search_def general_search_total)
  then show ?thesis using run_plan_scan [where r = mc and s = mc and y = y and w = w and plan = ?plan] by simp
qed

subsection \<open>Ordinal targets\<close>

lemma accepted_setup: "same_setup mc0 mc \<Longrightarrow> accepted w mc x = accepted w mc0 x"
  by (simp add: accepted_def reaches_matched_def same_setup_def MATCH_TYPE_def MATCH_CONTROLS_def
      exact_name_def)

lemma matched_ordinal:
  assumes "mc_final mc \<noteq> 0"
  shows "matched w full mc =
     (if \<not> MATCH_CONTROLS w mc then (0, mc\<lparr>mc_nocontrol := 1\<rparr>)
      else if mc_curr mc + 1 = mc_final mc
      then (1, mc\<lparr>mc_curr := mc_curr mc + 1, mc_bestmatch := mc_match mc, mc_done := 1\<rparr>)
      else (0, mc\<lparr>mc_curr := mc_curr mc + 1\<rparr>))"
  using assms by (simp add: matched_def Let_def)

lemma accepted_reaches:
  "accepted w mc x = (reaches_matched w mc x \<and> MATCH_CONTROLS w (mc\<lparr>mc_match := x\<rparr>))"
  by (simp add: accepted_def)

lemma eval_candidate_ordinal_eq:
  assumes "mc_final mc \<noteq> 0" "mc_exact mc = 0"
  shows "snd (eval_candidate w x mc) =
     (if reaches_matched w mc x then snd (matched w 1 (mc\<lparr>mc_match := x\<rparr>))
      else mc\<lparr>mc_match := x\<rparr>)"
proof -
  let ?m = "mc\<lparr>mc_match := x\<rparr>"
  have f: "mc_final ?m \<noteq> 0" using assms(1) by simp
  have p: "partial_name w ?m = (\<not> (mc_flags mc AND MAT_EXACT \<noteq> 0) \<and> \<not> IsExit w x
      \<and> string_match w (Name w x) (mc_name mc))"
    using assms(2) by (simp add: partial_name_def)
  have mo: "matched w 0 ?m = matched w 1 ?m"
    by (simp only: matched_ordinal [OF f])
  show ?thesis
    unfolding eval_candidate_def reaches_matched_def Let_def p mo
    by (simp cong: if_cong)
qed

lemma eval_candidate_ordinal:
  assumes "mc_final mc \<noteq> 0" "mc_exact mc = 0" "mc_done mc = 0"
  shows "same_setup mc (snd (eval_candidate w x mc))
     \<and> mc_exact (snd (eval_candidate w x mc)) = 0
     \<and> (if accepted w mc x then
           mc_curr (snd (eval_candidate w x mc)) = mc_curr mc + 1
           \<and> (if mc_curr mc + 1 = mc_final mc
               then mc_done (snd (eval_candidate w x mc)) = 1
                    \<and> mc_bestmatch (snd (eval_candidate w x mc)) = x
                    \<and> mc_match (snd (eval_candidate w x mc)) = x
               else mc_done (snd (eval_candidate w x mc)) = 0
                    \<and> mc_bestmatch (snd (eval_candidate w x mc)) = mc_bestmatch mc)
         else mc_curr (snd (eval_candidate w x mc)) = mc_curr mc
              \<and> mc_done (snd (eval_candidate w x mc)) = 0
              \<and> mc_bestmatch (snd (eval_candidate w x mc)) = mc_bestmatch mc)"
proof -
  let ?m = "mc\<lparr>mc_match := x\<rparr>"
  have f: "mc_final ?m \<noteq> 0" using assms(1) by simp
  note ev = eval_candidate_ordinal_eq [OF assms(1,2), of w x]
  show ?thesis
  proof (cases "reaches_matched w mc x")
    case False
    then show ?thesis using ev assms(2,3) by (simp add: accepted_reaches same_setup_def)
  next
    case True
    show ?thesis
    proof (cases "MATCH_CONTROLS w ?m")
      case False
      then show ?thesis
        using ev True assms(2,3) by (simp add: accepted_reaches same_setup_def matched_ordinal [OF f])
    next
      case ctl: True
      then show ?thesis
        using ev True assms(2,3) by (simp add: accepted_reaches same_setup_def matched_ordinal [OF f])
    qed
  qed
qed

lemma scan_ordinal:
  assumes "mc_final mc = K" "mc_exact mc = 0" "mc_done mc = 0" "mc_curr mc = c" "c < K" "0 \<le> c"
  shows "same_setup mc (scan w xs mc) \<and> mc_exact (scan w xs mc) = 0
     \<and> (if K - c \<le> int (length (filter (accepted w mc) xs))
         then mc_done (scan w xs mc) = 1
              \<and> mc_bestmatch (scan w xs mc) = filter (accepted w mc) xs ! nat (K - c - 1)
              \<and> mc_match (scan w xs mc) = filter (accepted w mc) xs ! nat (K - c - 1)
              \<and> mc_curr (scan w xs mc) = K
         else mc_done (scan w xs mc) = 0
              \<and> mc_curr (scan w xs mc) = c + int (length (filter (accepted w mc) xs))
              \<and> mc_bestmatch (scan w xs mc) = mc_bestmatch mc)"
  using assms
proof (induction xs arbitrary: mc c)
  case Nil
  then show ?case by (simp add: same_setup_def)
next
  case (Cons x xs)
  let ?s1 = "snd (eval_candidate w x mc)"
  have f: "mc_final mc \<noteq> 0" using Cons.prems by simp
  note e = eval_candidate_ordinal [OF f Cons.prems(2,3), of w x]
  have su: "same_setup mc ?s1" and ex: "mc_exact ?s1 = 0" using e by simp_all
  have fin: "mc_final ?s1 = K" using su Cons.prems(1) by (simp add: same_setup_def)
  have acc: "\<And>z. accepted w ?s1 z = accepted w mc z" using su by (rule accepted_setup)
  have tr: "\<And>t. same_setup ?s1 t \<Longrightarrow> same_setup mc t" using su by (simp add: same_setup_def)
  have sc: "scan w (x # xs) mc = scan w xs ?s1" using Cons.prems(3) by simp
  show ?case
  proof (cases "accepted w mc x")
    case True
    show ?thesis
    proof (cases "c + 1 = K")
      case last: True
      then have d: "mc_done ?s1 \<noteq> 0" and b: "mc_bestmatch ?s1 = x" "mc_match ?s1 = x"
        and cu: "mc_curr ?s1 = K"
        using e True Cons.prems(1,4) by simp_all
      have "scan w xs ?s1 = ?s1" using d by (rule scan_done)
      then show ?thesis
        using sc su ex d b cu True last e Cons.prems(1,4) by simp
    next
      case more: False
      have c1: "mc_curr ?s1 = c + 1" and d1: "mc_done ?s1 = 0" and b1: "mc_bestmatch ?s1 = mc_bestmatch mc"
        using e True more Cons.prems(1,4) by simp_all
      have lt: "c + 1 < K" using more Cons.prems(5) by simp
      have nn: "0 \<le> c + 1" using Cons.prems(6) by simp
      note ih = Cons.IH [OF fin ex d1 c1 lt nn]
      have idx: "K - c \<le> int (length (filter (accepted w mc) xs)) + 1 \<Longrightarrow>
          (x # filter (accepted w mc) xs) ! nat (K - c - 1)
            = filter (accepted w mc) xs ! nat (K - (c + 1) - 1)"
      proof -
        have "nat (K - c - 1) = Suc (nat (K - (c + 1) - 1))" using lt by simp
        then show ?thesis by simp
      qed
      show ?thesis
        using ih sc True acc tr b1 idx by (auto simp add: algebra_simps)
    qed
  next
    case False
    have c1: "mc_curr ?s1 = c" and d1: "mc_done ?s1 = 0" and b1: "mc_bestmatch ?s1 = mc_bestmatch mc"
      using e False Cons.prems(4) by simp_all
    note ih = Cons.IH [OF fin ex d1 c1 Cons.prems(5,6)]
    show ?thesis using ih sc False acc tr b1 by auto
  qed
qed

lemma differ_in_match_only:
  assumes "r\<lparr>mc_match := y\<rparr> = s\<lparr>mc_match := y\<rparr>"
  shows "mc_bestmatch r = mc_bestmatch s \<and> mc_final r = mc_final s \<and> mc_curr r = mc_curr s
     \<and> mc_done r = mc_done s \<and> mc_nocontrol r = mc_nocontrol s"
proof -
  have "mc_bestmatch (r\<lparr>mc_match := y\<rparr>) = mc_bestmatch (s\<lparr>mc_match := y\<rparr>)"
    "mc_final (r\<lparr>mc_match := y\<rparr>) = mc_final (s\<lparr>mc_match := y\<rparr>)"
    "mc_curr (r\<lparr>mc_match := y\<rparr>) = mc_curr (s\<lparr>mc_match := y\<rparr>)"
    "mc_done (r\<lparr>mc_match := y\<rparr>) = mc_done (s\<lparr>mc_match := y\<rparr>)"
    "mc_nocontrol (r\<lparr>mc_match := y\<rparr>) = mc_nocontrol (s\<lparr>mc_match := y\<rparr>)"
    by (simp_all only: assms)
  then show ?thesis by simp
qed

text \<open>
  Claim C2. In a call that reaches the general search with an ordinal target \<open>K \<ge> 1\<close>:
  let \<open>acc\<close> be the candidates of the pools of the plan, in traversal order, that pass the
  type, interaction, name and control checks. If there are at least \<open>K\<close> of them, the
  result is the \<open>K\<close>-th, the early-stop latch is set, the counter stands at \<open>K\<close> and it is
  the last candidate that was assigned to \<^verbatim>\<open>mc->match\<close> (no later candidate of any pool
  is looked at); otherwise the result is \<^verbatim>\<open>NOTHING\<close>.
\<close>

theorem ordinal_selects_kth_accepted:
  assumes "match_prologue w who where' xname type flags = Inr mc"
    and "0 < mc_final mc"
    and "match_search w mc = Some (ps, mc')"
    and "acc = filter (accepted w mc)
           (plan_candidates w (search_plan w (mc_where mc) (match_loc w (mc_where mc))
              (RealGoodObject w (mc_where mc)) (mc_type mc) (mc_flags mc)))"
  shows "(mc_final mc \<le> int (length acc) \<longrightarrow>
            (\<exists>msgs. match_result_internal w who where' xname type flags
                      = Some (acc ! nat (mc_final mc - 1), msgs))
            \<and> mc_done mc' = 1 \<and> mc_curr mc' = mc_final mc
            \<and> mc_match mc' = acc ! nat (mc_final mc - 1))
     \<and> (int (length acc) < mc_final mc \<longrightarrow>
            (\<exists>msgs. match_result_internal w who where' xname type flags = Some (NOTHING, msgs)))"
proof -
  let ?cands = "plan_candidates w (search_plan w (mc_where mc) (match_loc w (mc_where mc))
              (RealGoodObject w (mc_where mc)) (mc_type mc) (mc_flags mc))"
  let ?s = "scan w ?cands mc"
  note p = match_prologue_fields [OF assms(1)]
  have e0: "mc_exact mc = 0" and d0: "mc_done mc = 0" and c0: "mc_curr mc = 0"
    and b0: "\<not> GoodObject w (mc_bestmatch mc)"
    using p by simp_all
  note so = scan_ordinal [OF refl e0 d0 c0 assms(2), where w = w and xs = ?cands]
  note ms = match_search_scan [OF assms(3), where y = 0]
  note df = differ_in_match_only [where r = mc' and y = 0 and s = ?s]
  have fin: "mc_final ?s = mc_final mc" using so by (simp add: same_setup_def)
  have res: "match_result_internal w who where' xname type flags
      = Some (mc_bestmatch (match_classify w (mc_flags mc) mc'),
              match_notify w who (mc_flags mc) (match_classify w (mc_flags mc) mc'))"
    using assms(1,3) by (simp add: match_result_internal_def Let_def)
  have a: "(\<exists>msgs. match_result_internal w who where' xname type flags
                      = Some (acc ! nat (mc_final mc - 1), msgs))
            \<and> mc_done mc' = 1 \<and> mc_curr mc' = mc_final mc
            \<and> mc_match mc' = acc ! nat (mc_final mc - 1)"
    if k: "mc_final mc \<le> int (length acc)"
  proof -
    have s: "mc_done ?s = 1" "mc_bestmatch ?s = acc ! nat (mc_final mc - 1)"
      "mc_match ?s = acc ! nat (mc_final mc - 1)" "mc_curr ?s = mc_final mc"
      using so k assms(4) by simp_all
    have eq: "mc' = ?s" using ms s(1) by simp
    have "nat (mc_final mc - 1) < length acc" using k assms(2) by simp
    then have "acc ! nat (mc_final mc - 1) \<in> set ?cands"
      using assms(4) by (metis filter_is_subset nth_mem subsetD)
    then have g: "GoodObject w (acc ! nat (mc_final mc - 1))"
      using plan_candidates_good [of w] by blast
    have "mc_bestmatch (match_classify w (mc_flags mc) mc') = acc ! nat (mc_final mc - 1)"
      using eq s g fin assms(2) by (simp add: match_classify_def)
    then show ?thesis using res eq s by simp
  qed
  have b: "\<exists>msgs. match_result_internal w who where' xname type flags = Some (NOTHING, msgs)"
    if k: "int (length acc) < mc_final mc"
  proof -
    have "mc_bestmatch ?s = mc_bestmatch mc" using so k assms(4) by simp
    then have "\<not> GoodObject w (mc_bestmatch mc')" "mc_final mc' \<noteq> 0"
      using df ms b0 fin assms(2) by simp_all
    then have "mc_bestmatch (match_classify w (mc_flags mc) mc') = NOTHING"
      by (simp add: match_classify_def)
    then show ?thesis using res by simp
  qed
  show ?thesis using a b by blast
qed

subsection \<open>Candidates named by an absolute reference\<close>

lemma matched_world_cong:
  assumes "controls w' = controls w" "Typeof w' = Typeof w" "db_top w' = db_top w"
    "could_doit w' = could_doit w"
  shows "matched w' full mc = matched w full mc"
  unfolding matched_def MATCH_CONTROLS_def BEST_MATCH_def choose_thing_def GoodObject_def assms
  by (rule refl)

lemma matched_can_interact: "matched (w\<lparr>can_interact := ci\<rparr>) full mc = matched w full mc"
  by (rule matched_world_cong) simp_all

lemma MATCH_TYPE_can_interact: "MATCH_TYPE (w\<lparr>can_interact := ci\<rparr>) mc = MATCH_TYPE w mc"
  by (simp add: MATCH_TYPE_def)

lemma eval_candidate_abs:
  assumes "x = mc_abs mc" and "MATCH_TYPE w (mc\<lparr>mc_match := x\<rparr>) \<noteq> 0"
  shows "eval_candidate w x mc =
     (fst (matched w 1 (mc\<lparr>mc_match := x\<rparr>)) \<noteq> 0, snd (matched w 1 (mc\<lparr>mc_match := x\<rparr>)))"
  using assms by (simp add: eval_candidate_def Let_def)

lemma MATCH_TYPE_setup:
  "same_setup mc0 m \<Longrightarrow> MATCH_TYPE w (m\<lparr>mc_match := x\<rparr>) = MATCH_TYPE w (mc0\<lparr>mc_match := x\<rparr>)"
  by (simp add: MATCH_TYPE_def same_setup_def)

lemma MATCH_CONTROLS_setup:
  "same_setup mc0 m \<Longrightarrow>
     MATCH_CONTROLS w (m\<lparr>mc_match := x\<rparr>) = MATCH_CONTROLS w (mc0\<lparr>mc_match := x\<rparr>)"
  by (simp add: MATCH_CONTROLS_def same_setup_def)

lemma choose_thing_wins:
  assumes "GoodObject w x" and "t = NOTYPE \<or> Typeof w x AND t \<noteq> 0"
    and "f AND MAT_CHECK_KEYS = 0 \<or> could_doit w who x"
  shows "choose_thing w who t f a x = x"
  using assms by (auto simp add: choose_thing_def Let_def)

text \<open>A search without ordinal never sets the early-stop latch, and the match count never
  goes below zero.\<close>

lemma matched_no_ordinal:
  assumes "mc_final m = 0" "mc_done m = 0" "0 \<le> mc_curr m"
  shows "mc_done (snd (matched w full m)) = 0 \<and> 0 \<le> mc_curr (snd (matched w full m))"
  using assms by (simp add: matched_def Let_def)

lemma eval_candidate_no_ordinal:
  assumes "mc_final m = 0" "mc_done m = 0" "0 \<le> mc_curr m"
  shows "mc_done (snd (eval_candidate w x m)) = 0 \<and> 0 \<le> mc_curr (snd (eval_candidate w x m))"
  using assms eval_candidate_cases [of w x m] matched_no_ordinal [of "m\<lparr>mc_match := x\<rparr>" w]
  by auto

lemma scan_no_ordinal:
  assumes "same_setup mc0 m" "mc_final mc0 = 0" "mc_done m = 0" "0 \<le> mc_curr m"
  shows "same_setup mc0 (scan w xs m) \<and> mc_done (scan w xs m) = 0 \<and> 0 \<le> mc_curr (scan w xs m)"
  using assms
proof (induction xs arbitrary: m)
  case Nil
  then show ?case by simp
next
  case (Cons y ys)
  let ?s1 = "snd (eval_candidate w y m)"
  have f: "mc_final m = 0" using Cons.prems(1,2) by (simp add: same_setup_def)
  have su: "same_setup mc0 ?s1" using Cons.prems(1) by (rule eval_candidate_setup)
  note e = eval_candidate_no_ordinal [OF f Cons.prems(3,4), of w y]
  show ?case using Cons.IH [OF su Cons.prems(2)] e Cons.prems(3) by simp
qed

text \<open>Once an exact match was counted, the latch stays set and the count stays positive.\<close>

lemma matched_counted:
  assumes "mc_exact m \<noteq> 0" "1 \<le> mc_curr m"
  shows "mc_exact (snd (matched w full m)) \<noteq> 0 \<and> 1 \<le> mc_curr (snd (matched w full m))"
  using assms by (simp add: matched_def Let_def)

lemma eval_candidate_counted:
  assumes "mc_exact m \<noteq> 0" "1 \<le> mc_curr m"
  shows "mc_exact (snd (eval_candidate w x m)) \<noteq> 0 \<and> 1 \<le> mc_curr (snd (eval_candidate w x m))"
  using assms eval_candidate_cases [of w x m] matched_counted [of "m\<lparr>mc_match := x\<rparr>" w]
  by auto

lemma scan_counted:
  assumes "mc_exact m \<noteq> 0" "1 \<le> mc_curr m"
  shows "mc_exact (scan w xs m) \<noteq> 0 \<and> 1 \<le> mc_curr (scan w xs m)"
  using assms
proof (induction xs arbitrary: m)
  case Nil
  then show ?case by simp
next
  case (Cons y ys)
  note e = eval_candidate_counted [OF Cons.prems, of w y]
  show ?case using Cons.IH [of "snd (eval_candidate w y m)"] e Cons.prems by simp
qed

text \<open>The call of \<^verbatim>\<open>matched\<close> for a full match that passes the control check and wins the
  tie-break sets the latch and counts the candidate.\<close>

lemma matched_full_counted:
  assumes "mc_final m = 0" "MATCH_CONTROLS w m" "BEST_MATCH w m = mc_match m" "0 \<le> mc_curr m"
  shows "mc_exact (snd (matched w 1 m)) \<noteq> 0 \<and> 1 \<le> mc_curr (snd (matched w 1 m))"
  using assms by (simp add: matched_def Let_def)

lemma scan_abs_counted:
  assumes "same_setup mc0 m" "mc_final mc0 = 0" "mc_done m = 0" "0 \<le> mc_curr m"
    and "x \<in> set xs" "x = mc_abs mc0" "GoodObject w x"
    and "MATCH_TYPE w (mc0\<lparr>mc_match := x\<rparr>) \<noteq> 0" "MATCH_CONTROLS w (mc0\<lparr>mc_match := x\<rparr>)"
    and "wins_tie w mc0 x"
  shows "mc_exact (scan w xs m) \<noteq> 0 \<and> 1 \<le> mc_curr (scan w xs m)"
proof -
  obtain pre post where xs: "xs = pre @ x # post"
    using assms(5) by (meson split_list)
  let ?s = "scan w pre m"
  let ?sx = "?s\<lparr>mc_match := x\<rparr>"
  note s = scan_no_ordinal [OF assms(1-4), of w pre]
  have su: "same_setup mc0 ?s" and d: "mc_done ?s = 0" and c: "0 \<le> mc_curr ?s"
    using s by simp_all
  have ab: "x = mc_abs ?s" using su assms(6) by (simp add: same_setup_def)
  have ty: "MATCH_TYPE w ?sx \<noteq> 0"
    using assms(8) by (simp add: MATCH_TYPE_setup [OF su])
  have co: "MATCH_CONTROLS w ?sx"
    using assms(9) by (simp add: MATCH_CONTROLS_setup [OF su])
  have fi: "mc_final ?sx = 0" using su assms(2) by (simp add: same_setup_def)
  have "choose_thing w (mc_who ?s) (mc_type ?s) (mc_flags ?s) (mc_bestmatch ?s) x = x"
    using su assms(7,10) by (intro choose_thing_wins) (simp_all add: wins_tie_def same_setup_def)
  then have be: "BEST_MATCH w ?sx = mc_match ?sx" by (simp add: BEST_MATCH_def)
  have cx: "0 \<le> mc_curr ?sx" using c by simp
  note m1 = matched_full_counted [OF fi co be cx]
  have ev: "snd (eval_candidate w x ?s) = snd (matched w 1 ?sx)"
    using eval_candidate_abs [OF ab ty] by simp
  have "scan w xs m = scan w post (snd (matched w 1 ?sx))"
    using xs d ev by (simp add: scan_append)
  then show ?thesis using scan_counted [of "snd (matched w 1 ?sx)" w post] m1 by simp
qed

lemma differ_in_match_exact:
  assumes "r\<lparr>mc_match := y\<rparr> = s\<lparr>mc_match := y\<rparr>"
  shows "mc_exact r = mc_exact s"
proof -
  have "mc_exact (r\<lparr>mc_match := y\<rparr>) = mc_exact (s\<lparr>mc_match := y\<rparr>)"
    by (simp only: assms)
  then show ?thesis by simp
qed

text \<open>
  Claim C10, as the code has it. In a call that reaches the general search, let \<open>x\<close> be a
  candidate of a pool of the plan (of an object list or of a proxy list) that equals
  \<^verbatim>\<open>mc->abs\<close>, what \<^verbatim>\<open>parse_objid\<close> made of the raw text, and passes the type check. Then,
  first, whatever \<^verbatim>\<open>can_interact\<close> says and whatever the flags are (so also under
  \<^verbatim>\<open>MAT_EXACT\<close>), evaluating \<open>x\<close> in any context of the search is the call of \<^verbatim>\<open>matched\<close>
  for a full match. Second, in a search without ordinal, if \<open>x\<close> passes the control check
  and the tie-breaker prefers it (its type intersects the preferred type, if any, and it
  passes the lock check, if \<^verbatim>\<open>MAT_CHECK_KEYS\<close> is set), then the search ends with the exact
  latch set and a match count of at least 1, and the result is \<^verbatim>\<open>AMBIGUOUS\<close> or a good
  object that was a full match. Third, if \<open>x\<close> does not pass the control check, evaluating
  it counts nothing: it only sets \<^verbatim>\<open>mc->nocontrol\<close>.
\<close>

theorem absolute_candidate_is_exact:
  assumes "match_prologue w who where' xname type flags = Inr mc"
    and "match_search w mc = Some (ps, mc')"
    and "cands = plan_candidates w (search_plan w (mc_where mc) (match_loc w (mc_where mc))
              (RealGoodObject w (mc_where mc)) (mc_type mc) (mc_flags mc))"
    and "x \<in> set cands"
    and "x = mc_abs mc"
    and "MATCH_TYPE w (mc\<lparr>mc_match := x\<rparr>) \<noteq> 0"
  shows "(same_setup mc m \<longrightarrow>
            eval_candidate (w\<lparr>can_interact := ci\<rparr>) x m =
              (fst (matched w 1 (m\<lparr>mc_match := x\<rparr>)) \<noteq> 0, snd (matched w 1 (m\<lparr>mc_match := x\<rparr>))))
     \<and> (mc_final mc = 0 \<and> MATCH_CONTROLS w (mc\<lparr>mc_match := x\<rparr>) \<and> wins_tie w mc x \<longrightarrow>
            mc_exact mc' \<noteq> 0 \<and> 1 \<le> mc_curr mc'
            \<and> (\<exists>r msgs. match_result_internal w who where' xname type flags = Some (r, msgs)
                  \<and> (r = AMBIGUOUS \<or> (GoodObject w r \<and> full_match w mc r))))
     \<and> (\<not> MATCH_CONTROLS w (mc\<lparr>mc_match := x\<rparr>) \<and> same_setup mc m \<longrightarrow>
            snd (eval_candidate w x m) = m\<lparr>mc_match := x, mc_nocontrol := 1\<rparr>)"
proof -
  let ?s = "scan w cands mc"
  note p = match_prologue_fields [OF assms(1)]
  have e0: "mc_exact mc = 0" and d0: "mc_done mc = 0" and c0: "mc_curr mc = 0"
    using p by simp_all
  have g: "GoodObject w x" using assms(3,4) plan_candidates_good [of w] by blast
  note ms = match_search_scan [OF assms(2), where y = 0]
  have eq: "mc'\<lparr>mc_match := 0\<rparr> = ?s\<lparr>mc_match := 0\<rparr>" using ms assms(3) by simp
  note df = differ_in_match_only [OF eq]
  note de = differ_in_match_exact [OF eq]
  have a: "eval_candidate (w\<lparr>can_interact := ci\<rparr>) x m =
              (fst (matched w 1 (m\<lparr>mc_match := x\<rparr>)) \<noteq> 0, snd (matched w 1 (m\<lparr>mc_match := x\<rparr>)))"
    if su: "same_setup mc m"
  proof -
    have ab: "x = mc_abs m" using su assms(5) by (simp add: same_setup_def)
    have "MATCH_TYPE w (m\<lparr>mc_match := x\<rparr>) \<noteq> 0"
      using assms(6) by (simp add: MATCH_TYPE_setup [OF su])
    then have ty: "MATCH_TYPE (w\<lparr>can_interact := ci\<rparr>) (m\<lparr>mc_match := x\<rparr>) \<noteq> 0"
      by (simp add: MATCH_TYPE_can_interact)
    show ?thesis using eval_candidate_abs [OF ab ty] by (simp add: matched_can_interact)
  qed
  have b: "mc_exact mc' \<noteq> 0 \<and> 1 \<le> mc_curr mc'
            \<and> (\<exists>r msgs. match_result_internal w who where' xname type flags = Some (r, msgs)
                  \<and> (r = AMBIGUOUS \<or> (GoodObject w r \<and> full_match w mc r)))"
    if f0: "mc_final mc = 0" and co: "MATCH_CONTROLS w (mc\<lparr>mc_match := x\<rparr>)"
      and wt: "wins_tie w mc x"
  proof -
    have ss: "same_setup mc mc" by (simp add: same_setup_def)
    have cn: "0 \<le> mc_curr mc" using c0 by simp
    note sc = scan_abs_counted [OF ss f0 d0 cn assms(4) assms(5) g assms(6) co wt]
    have ex: "mc_exact mc' \<noteq> 0" and cu: "1 \<le> mc_curr mc'" using sc de df by simp_all
    have inv: "exact_inv w mc mc'" using assms(2) f0 e0 by (rule match_search_exact_inv)
    have fin: "mc_final mc' = 0" using inv by (simp add: exact_inv_def)
    have "\<exists>r msgs. match_result_internal w who where' xname type flags = Some (r, msgs)
               \<and> (r = AMBIGUOUS \<or> (GoodObject w r \<and> full_match w mc r))"
      using assms(1,2) inv fin ex
      by (auto simp add: match_result_internal_def match_classify_def exact_inv_def Let_def)
    then show ?thesis using ex cu by simp
  qed
  have d: "snd (eval_candidate w x m) = m\<lparr>mc_match := x, mc_nocontrol := 1\<rparr>"
    if nc: "\<not> MATCH_CONTROLS w (mc\<lparr>mc_match := x\<rparr>)" and su: "same_setup mc m"
  proof -
    have ab: "x = mc_abs m" using su assms(5) by (simp add: same_setup_def)
    have ty: "MATCH_TYPE w (m\<lparr>mc_match := x\<rparr>) \<noteq> 0"
      using assms(6) by (simp add: MATCH_TYPE_setup [OF su])
    have "\<not> MATCH_CONTROLS w (m\<lparr>mc_match := x\<rparr>)"
      using nc by (simp add: MATCH_CONTROLS_setup [OF su])
    then show ?thesis using eval_candidate_abs [OF ab ty] by (simp add: matched_def)
  qed
  show ?thesis using a b d by blast
qed

section \<open>Worked examples\<close>

text \<open>The theorems above, applied to calls on the small database, the inputs at which
  the statements that had to be amended fail, and the input at which the code departs
  from its own description. The definitions are unfolded and evaluated by the
  simplifier.\<close>

lemmas mat_defs = MAT_CHECK_KEYS_def MAT_GLOBAL_def MAT_REMOTES_def MAT_NEAR_def MAT_CONTROL_def
  MAT_ME_def MAT_HERE_def MAT_ABSOLUTE_def MAT_PMATCH_def MAT_PLAYER_def MAT_NEIGHBOR_def
  MAT_POSSESSION_def MAT_EXIT_def MAT_CARRIED_EXIT_def MAT_CONTAINER_def MAT_REMOTE_CONTENTS_def
  MAT_ENGLISH_def MAT_TYPE_def MAT_EXACT_def MAT_CONTENTS_def MAT_NOISY_def MAT_LAST_def
  MAT_EVERYTHING_def

lemmas type_defs = TYPE_ROOM_def TYPE_THING_def TYPE_EXIT_def TYPE_PLAYER_def TYPE_GARBAGE_def
  NOTYPE_def

lemmas demo_defs = demo_world_def demo_Typeof_def demo_Name_def demo_Location_def
  demo_Contents_def demo_Exits_def demo_Chain_def demo_parse_objid_def demo_string_match_def
  demo_generic_attrs_def

lemmas eval_defs = match_obj_loop.simps match_obj_list_def dolist_def dolist_end_def
  GoodObject_def RealGoodObject_def IsRoom_def IsExit_def IsPlayer_def IsGarbage_def MATCH_TYPE_def MATCH_CONTROLS_def
  MATCH_CONTENTS_def BEST_MATCH_def choose_thing_def matched_def match_aliases_def
  exact_name_def partial_name_def strcasecmp_eq_def strncasecmp_eq_def tolower_ch_def
  match_attr_list_def match_attr_helper_def NOTHING_def AMBIGUOUS_def Let_def

lemmas call_defs = match_result_internal_def match_prologue_def init_context_def match_me_def
  match_here_def match_pmatch_def match_player_def match_absolute_def match_english_def
  parse_english_def restriction_adjectives_def adj_here_def adj_my_def adj_toward_def
  count_adjective_def strtoul_def digit_run_value_def isdigit_def isspace_def digit_val_def
  ULONG_MAX_def
  match_search_def general_search_total search_plan_def match_loc_def match_classify_def
  match_notify_def match_result_def noisy_match_result_def

lemmas run_defs = call_defs eval_defs demo_defs mat_defs type_defs

lemma demo_good: "GoodObject demo_world x = (0 \<le> x \<and> x < 10)"
  by (simp add: GoodObject_def demo_world_def)

theorem choose_thing_order_witness:
  "choose_thing demo_world 1 NOTYPE 0 NOTHING AMBIGUOUS = AMBIGUOUS
   \<and> choose_thing demo_world 1 NOTYPE 0 AMBIGUOUS NOTHING = AMBIGUOUS
   \<and> choose_thing demo_world 1 NOTYPE 0 NOTHING NOTHING = NOTHING
   \<and> choose_thing demo_world 1 NOTYPE 0 2 NOTHING = 2
   \<and> choose_thing demo_world 1 NOTYPE 0 AMBIGUOUS 3 = 3
   \<and> choose_thing demo_world 1 TYPE_PLAYER 0 1 3 = 1
   \<and> choose_thing demo_world 1 NOTYPE 0 2 3 = 3
   \<and> mc_bestmatch (projr (match_here demo_world ''apple'' MAT_EVERYTHING
        (projr (match_me demo_world ''apple'' MAT_EVERYTHING
           (init_context demo_world 1 1 ''apple'' NOTYPE MAT_EVERYTHING))))) = NOTHING
   \<and> 3 \<in> set (plan_candidates demo_world [(Possessions, Obj_List 2)])
   \<and> GoodObject demo_world 3"
proof -
  let ?mc0 = "init_context demo_world 1 1 ''apple'' NOTYPE MAT_EVERYTHING"
  let ?mc1 = "projr (match_me demo_world ''apple'' MAT_EVERYTHING ?mc0)"
  let ?mc2 = "projr (match_here demo_world ''apple'' MAT_EVERYTHING ?mc1)"
  have g: "\<not> GoodObject demo_world AMBIGUOUS" "\<not> GoodObject demo_world NOTHING"
    "GoodObject demo_world 1" "GoodObject demo_world 2" "GoodObject demo_world 3"
    by (simp_all add: demo_good AMBIGUOUS_def NOTHING_def)
  have t: "Typeof demo_world 1 AND TYPE_PLAYER \<noteq> 0" "Typeof demo_world 3 AND TYPE_PLAYER = 0"
    "TYPE_PLAYER \<noteq> NOTYPE"
    by (simp_all add: demo_world_def demo_Typeof_def TYPE_PLAYER_def TYPE_THING_def NOTYPE_def)
  have n: "AMBIGUOUS \<noteq> NOTHING" by (simp add: AMBIGUOUS_def NOTHING_def)
  have s1: "match_me demo_world ''apple'' MAT_EVERYTHING ?mc0 = Inr ?mc1"
    by (simp add: run_defs)
  have s2: "match_here demo_world ''apple'' MAT_EVERYTHING ?mc1 = Inr ?mc2"
    by (simp add: run_defs)
  have c: "3 \<in> set (plan_candidates demo_world [(Possessions, Obj_List 2)])"
    by (simp add: plan_candidates_def run_defs)
  show ?thesis
    using choose_thing_order [where w = demo_world and a = NOTHING and b = AMBIGUOUS and who = 1
        and t = NOTYPE and f = 0 and xname = "''apple''" and flags = MAT_EVERYTHING
        and where' = 1 and type = NOTYPE and ?mc1.0 = ?mc1 and ?mc2.0 = ?mc2 and x = 3
        and plan = "[(Possessions, Obj_List 2)]"]
      choose_thing_order [of demo_world AMBIGUOUS NOTHING 1 NOTYPE 0]
      choose_thing_order [of demo_world NOTHING NOTHING 1 NOTYPE 0]
      choose_thing_order [of demo_world 2 NOTHING 1 NOTYPE 0]
      choose_thing_order [of demo_world AMBIGUOUS 3 1 NOTYPE 0]
      choose_thing_order [of demo_world 1 3 1 TYPE_PLAYER 0]
      choose_thing_order [of demo_world 2 3 1 NOTYPE 0]
      g t n s1 s2 c
    by simp
qed

theorem noisy_match_result_never_ambiguous_witness:
  "match_result demo_world 1 ''north'' NOTYPE (MAT_EVERYTHING OR MAT_NOISY)
     = Some (AMBIGUOUS, [''I don't know which one you mean!''])
   \<and> \<not> GoodObject demo_world AMBIGUOUS
   \<and> noisy_match_result demo_world 1 ''north'' NOTYPE MAT_EVERYTHING
     = Some (NOTHING, [''I don't know which one you mean!''])"
proof -
  have r: "match_result demo_world 1 ''north'' NOTYPE (MAT_EVERYTHING OR MAT_NOISY)
     = Some (AMBIGUOUS, [''I don't know which one you mean!''])"
    by (simp add: run_defs)
  show ?thesis
    using r AMBIGUOUS_not_good [of demo_world]
      noisy_match_result_never_ambiguous [of demo_world 1 "''north''" NOTYPE MAT_EVERYTHING
        AMBIGUOUS "[''I don't know which one you mean!'']"]
    by simp
qed




theorem malformed_ordinal_is_no_count_witness:
  "parse_english ''12nd foo'' MAT_EVERYTHING = (0, ''12nd foo'', MAT_EVERYTHING)
   \<and> parse_english ''0th foo'' MAT_EVERYTHING = (0, ''0th foo'', MAT_EVERYTHING)
   \<and> parse_english ''2nd'' MAT_EVERYTHING = (0, ''2nd'', MAT_EVERYTHING)
   \<and> parse_english ''my 12nd foo'' MAT_EVERYTHING
       = (0, ''12nd foo'', MAT_ME OR MAT_HERE OR MAT_ABSOLUTE OR MAT_PLAYER OR MAT_POSSESSION OR MAT_ENGLISH)"
proof -
  let ?g = "MAT_ME OR MAT_HERE OR MAT_ABSOLUTE OR MAT_PLAYER OR MAT_POSSESSION OR MAT_ENGLISH"
  have r1: "restriction_adjectives ''12nd foo'' MAT_EVERYTHING = (''12nd foo'', MAT_EVERYTHING)"
    and r2: "restriction_adjectives ''0th foo'' MAT_EVERYTHING = (''0th foo'', MAT_EVERYTHING)"
    and r3: "restriction_adjectives ''2nd'' MAT_EVERYTHING = (''2nd'', MAT_EVERYTHING)"
    and r4: "restriction_adjectives ''my 12nd foo'' MAT_EVERYTHING = (''12nd foo'', ?g)"
    by (simp_all add: run_defs)
  have d: "isdigit (hd ''12nd foo'')" "isdigit (hd ''0th foo'')" "isdigit (hd ''2nd'')"
    by (simp_all add: isdigit_def)
  have m1: "digit_run_value (takeWhile (\<lambda>c. c \<noteq> CHR '' '') ''12nd foo'') < 2 ^ 31
            \<and> \<not> agreeing_ordinal (takeWhile (\<lambda>c. c \<noteq> CHR '' '') ''12nd foo'')"
    and m2: "digit_run_value (takeWhile (\<lambda>c. c \<noteq> CHR '' '') ''0th foo'') < 2 ^ 31
            \<and> \<not> agreeing_ordinal (takeWhile (\<lambda>c. c \<noteq> CHR '' '') ''0th foo'')"
    by (simp_all add: agreeing_ordinal_def ordinal_suffix_def digit_run_value_def digit_val_def
        isdigit_def strcasecmp_eq_def tolower_ch_def)
  have m3: "CHR '' '' \<notin> set ''2nd''" by simp
  show ?thesis
    using malformed_ordinal_is_no_count [OF r1 _ d(1)]
      malformed_ordinal_is_no_count [OF r2 _ d(2)]
      malformed_ordinal_is_no_count [OF r3 _ d(3)]
      malformed_ordinal_is_no_count [OF r4 _ d(1)] m1 m2 m3
    by simp
qed

text \<open>
  The claim as it is worded (text and flags are reset to their original values, as if no
  restriction adjective had been present) fails when an adjective precedes the malformed
  ordinal: the adjective stays consumed and the flags stay restricted.
\<close>

theorem malformed_ordinal_reset_counterexample:
  "fst (snd (parse_english ''my 0th foo'' MAT_EVERYTHING)) = ''0th foo''
   \<and> fst (snd (parse_english ''my 0th foo'' MAT_EVERYTHING)) \<noteq> ''my 0th foo''
   \<and> snd (snd (parse_english ''my 0th foo'' MAT_EVERYTHING)) \<noteq> MAT_EVERYTHING
   \<and> snd (snd (parse_english ''my 0th foo'' MAT_EVERYTHING)) AND MAT_NEIGHBOR = 0
   \<and> MAT_EVERYTHING AND MAT_NEIGHBOR \<noteq> 0"
  by (simp add: run_defs)

text \<open>
  A digit run that does not fit an \<^verbatim>\<open>int\<close> is outside the statement above: the result of
  \<^verbatim>\<open>strtoul\<close> is stored in the \<^verbatim>\<open>int\<close> \<^verbatim>\<open>count\<close> unchecked, so that \<open>4294967297\<close>
  (\<open>2^32 + 1\<close>) is taken for 1 and agrees with the suffix \<^verbatim>\<open>st\<close>.
\<close>

lemma ordinal_wraps_around:
  "parse_english ''4294967297st foo'' MAT_EVERYTHING = (1, ''foo'', MAT_EVERYTHING)
   \<and> \<not> agreeing_ordinal ''4294967297st''"
  by (simp add: agreeing_ordinal_def ordinal_suffix_def run_defs)



text \<open>
  Claim C7. After \<^verbatim>\<open>"my <name>"\<close> the general search visits no exit pool (room exits, zone
  exits, master-room exits or carried exits), and after \<^verbatim>\<open>"toward <name>"\<close> it does not
  visit the possessions. The code departs from the first half, and from its own comment
  (lines 143 and 632: \<^verbatim>\<open>"my"\<close>, \<^verbatim>\<open>"me"\<close> restrict the match to the inventory): the mask of
  line 668 clears \<^verbatim>\<open>MAT_NEIGHBOR\<close>, \<^verbatim>\<open>MAT_EXIT\<close>, \<^verbatim>\<open>MAT_CONTAINER\<close> and
  \<^verbatim>\<open>MAT_REMOTE_CONTENTS\<close> and leaves \<^verbatim>\<open>MAT_CARRIED_EXIT\<close> set. With the room \<open>0\<close> as the
  anchor, \<^verbatim>\<open>"my north"\<close> is parsed to the name \<^verbatim>\<open>north\<close> with \<^verbatim>\<open>MAT_CARRIED_EXIT\<close> still set,
  the search goes on from the contents of the room to the exits the room carries, and the
  result is \<^verbatim>\<open>AMBIGUOUS\<close> between the two exits named north (the exit \<open>9\<close> with \<^verbatim>\<open>MAT_LAST\<close>),
  although nothing in the room is named north.
\<close>

theorem my_north_searches_carried_exits:
  "parse_english ''my north'' (MAT_ENGLISH OR MAT_POSSESSION OR MAT_CARRIED_EXIT)
     = (0, ''north'', MAT_ENGLISH OR MAT_POSSESSION OR MAT_CARRIED_EXIT)
   \<and> dolist demo_world (Contents demo_world 0) = [1, 5]
   \<and> dolist demo_world (Exits demo_world 0) = [4, 9]
   \<and> map_option fst (match_search demo_world
        (projr (match_prologue demo_world 1 0 ''my north'' NOTYPE
           (MAT_ENGLISH OR MAT_POSSESSION OR MAT_CARRIED_EXIT))))
      = Some [Possessions, Possession_Proxies, Carried_Exits]
   \<and> match_result_internal demo_world 1 0 ''my north'' NOTYPE
        (MAT_ENGLISH OR MAT_POSSESSION OR MAT_CARRIED_EXIT) = Some (AMBIGUOUS, [])
   \<and> match_result_internal demo_world 1 0 ''my north'' NOTYPE
        (MAT_ENGLISH OR MAT_POSSESSION OR MAT_CARRIED_EXIT OR MAT_LAST) = Some (9, [])"
  by (simp add: run_defs)

theorem exact_match_precedence_witness:
  "match_result_internal demo_world 1 1 ''apple'' NOTYPE MAT_EVERYTHING = Some (3, [])
   \<and> full_match demo_world (projr (match_prologue demo_world 1 1 ''apple'' NOTYPE MAT_EVERYTHING)) 3
   \<and> \<not> full_match demo_world (projr (match_prologue demo_world 1 1 ''apple'' NOTYPE MAT_EVERYTHING)) 2
   \<and> mc_curr (snd (the (match_search demo_world
        (projr (match_prologue demo_world 1 1 ''apple'' NOTYPE MAT_EVERYTHING))))) = 1"
proof -
  let ?mc = "projr (match_prologue demo_world 1 1 ''apple'' NOTYPE MAT_EVERYTHING)"
  let ?r = "the (match_search demo_world ?mc)"
  have h1: "match_prologue demo_world 1 1 ''apple'' NOTYPE MAT_EVERYTHING = Inr ?mc"
    by (simp add: run_defs)
  have h2: "mc_final ?mc = 0" by (simp add: run_defs)
  have h3: "match_search demo_world ?mc = Some (fst ?r, snd ?r)"
    by (simp add: match_search_def general_search_total)
  have h4: "mc_exact (snd ?r) \<noteq> 0" "mc_curr (snd ?r) = 1" by (simp_all add: run_defs)
  have v: "match_result_internal demo_world 1 1 ''apple'' NOTYPE MAT_EVERYTHING = Some (3, [])"
    by (simp add: run_defs)
  have n: "\<not> full_match demo_world ?mc 2" "(3::int) \<noteq> AMBIGUOUS"
    by (simp_all add: full_match_def run_defs)
  show ?thesis
    using exact_match_precedence [OF h1 h2 h3] h4 v n by auto
qed

theorem ordinal_selects_kth_accepted_witness:
  "(\<exists>msgs. match_result_internal demo_world 1 1 ''2nd coin'' NOTYPE MAT_EVERYTHING = Some (8, msgs))
   \<and> (\<exists>msgs. match_result_internal demo_world 1 1 ''3rd coin'' NOTYPE MAT_EVERYTHING
         = Some (NOTHING, msgs))
   \<and> mc_match (snd (the (match_search demo_world
        (projr (match_prologue demo_world 1 1 ''2nd coin'' NOTYPE MAT_EVERYTHING))))) = 8"
proof -
  let ?mc2 = "projr (match_prologue demo_world 1 1 ''2nd coin'' NOTYPE MAT_EVERYTHING)"
  let ?mc3 = "projr (match_prologue demo_world 1 1 ''3rd coin'' NOTYPE MAT_EVERYTHING)"
  have p2: "match_prologue demo_world 1 1 ''2nd coin'' NOTYPE MAT_EVERYTHING = Inr ?mc2"
    and p3: "match_prologue demo_world 1 1 ''3rd coin'' NOTYPE MAT_EVERYTHING = Inr ?mc3"
    by (simp_all add: run_defs)
  have f2: "mc_final ?mc2 = 2" and f3: "mc_final ?mc3 = 3" by (simp_all add: run_defs)
  have s2: "match_search demo_world ?mc2
      = Some (fst (the (match_search demo_world ?mc2)), snd (the (match_search demo_world ?mc2)))"
    and s3: "match_search demo_world ?mc3
      = Some (fst (the (match_search demo_world ?mc3)), snd (the (match_search demo_world ?mc3)))"
    by (simp_all add: match_search_def general_search_total)
  have a2: "[7, 8] = filter (accepted demo_world ?mc2)
           (plan_candidates demo_world (search_plan demo_world (mc_where ?mc2)
              (match_loc demo_world (mc_where ?mc2)) (RealGoodObject demo_world (mc_where ?mc2))
              (mc_type ?mc2) (mc_flags ?mc2)))"
    and a3: "[7, 8] = filter (accepted demo_world ?mc3)
           (plan_candidates demo_world (search_plan demo_world (mc_where ?mc3)
              (match_loc demo_world (mc_where ?mc3)) (RealGoodObject demo_world (mc_where ?mc3))
              (mc_type ?mc3) (mc_flags ?mc3)))"
    by (simp_all add: accepted_def reaches_matched_def plan_candidates_def valid_proxy_def run_defs)
  have z2: "0 < mc_final ?mc2" and z3: "0 < mc_final ?mc3" using f2 f3 by simp_all
  show ?thesis
    using ordinal_selects_kth_accepted [OF p2 z2 s2 a2] ordinal_selects_kth_accepted [OF p3 z3 s3 a3]
      f2 f3
    by simp
qed

theorem absolute_candidate_is_exact_witness:
  "match_result_internal proxy_world 1 1 ''#5'' NOTYPE (MAT_POSSESSION OR MAT_EXACT) = Some (5, [])
   \<and> \<not> can_interact proxy_world 5 1
   \<and> (MAT_POSSESSION OR MAT_EXACT) AND MAT_EXACT \<noteq> 0
   \<and> dolist proxy_world (Contents proxy_world 1) = [2, 3, 7, 8]
   \<and> visit_candidates proxy_world (Attr_List 1) = [5]
   \<and> mc_exact (snd (the (match_search proxy_world
        (projr (match_prologue proxy_world 1 1 ''#5'' NOTYPE (MAT_POSSESSION OR MAT_EXACT)))))) = 1
   \<and> mc_curr (snd (the (match_search proxy_world
        (projr (match_prologue proxy_world 1 1 ''#5'' NOTYPE (MAT_POSSESSION OR MAT_EXACT)))))) = 1"
proof -
  let ?f = "MAT_POSSESSION OR MAT_EXACT"
  let ?mc = "projr (match_prologue proxy_world 1 1 ''#5'' NOTYPE ?f)"
  let ?r = "the (match_search proxy_world ?mc)"
  let ?cands = "plan_candidates proxy_world (search_plan proxy_world (mc_where ?mc)
      (match_loc proxy_world (mc_where ?mc)) (RealGoodObject proxy_world (mc_where ?mc))
      (mc_type ?mc) (mc_flags ?mc))"
  note defs = proxy_world_def plan_candidates_def valid_proxy_def wins_tie_def run_defs
  have h1: "match_prologue proxy_world 1 1 ''#5'' NOTYPE ?f = Inr ?mc"
    by (simp add: defs)
  have h2: "match_search proxy_world ?mc = Some (fst ?r, snd ?r)"
    by (simp add: match_search_def general_search_total)
  have h4: "5 \<in> set ?cands" by (simp add: defs)
  have h5: "5 = mc_abs ?mc" by (simp add: defs)
  have h6: "MATCH_TYPE proxy_world (?mc\<lparr>mc_match := 5\<rparr>) \<noteq> 0" by (simp add: defs)
  have h7: "mc_final ?mc = 0" "MATCH_CONTROLS proxy_world (?mc\<lparr>mc_match := 5\<rparr>)"
    "wins_tie proxy_world ?mc 5"
    by (simp_all add: defs)
  have v: "match_result_internal proxy_world 1 1 ''#5'' NOTYPE ?f = Some (5, [])"
    "\<not> can_interact proxy_world 5 1" "?f AND MAT_EXACT \<noteq> 0"
    "dolist proxy_world (Contents proxy_world 1) = [2, 3, 7, 8]"
    "visit_candidates proxy_world (Attr_List 1) = [5]"
    "mc_exact (snd ?r) = 1" "mc_curr (snd ?r) = 1"
    by (simp_all add: defs)
  show ?thesis
    using absolute_candidate_is_exact [OF h1 h2 refl h4 h5 h6] h7 v by simp
qed

text \<open>
  The claim as it is worded (every such candidate that passes the type check is counted
  as an exact match) fails where the control check denies the candidate: with
  \<^verbatim>\<open>MAT_CONTROL\<close> and a requester who controls nothing, the thing \<open>3\<close> that the requester
  carries and that \<^verbatim>\<open>#3\<close> names passes the type check and is not counted; the result is
  \<^verbatim>\<open>NOTHING\<close>.
\<close>

theorem absolute_candidate_control_counterexample:
  "dolist locked_world (Contents locked_world 1) = [2, 3, 7, 8]
   \<and> mc_abs (projr (match_prologue locked_world 1 1 ''#3'' NOTYPE (MAT_POSSESSION OR MAT_CONTROL))) = 3
   \<and> MATCH_TYPE locked_world
        ((projr (match_prologue locked_world 1 1 ''#3'' NOTYPE (MAT_POSSESSION OR MAT_CONTROL)))
           \<lparr>mc_match := 3\<rparr>) = 1
   \<and> mc_exact (snd (the (match_search locked_world
        (projr (match_prologue locked_world 1 1 ''#3'' NOTYPE (MAT_POSSESSION OR MAT_CONTROL)))))) = 0
   \<and> mc_curr (snd (the (match_search locked_world
        (projr (match_prologue locked_world 1 1 ''#3'' NOTYPE (MAT_POSSESSION OR MAT_CONTROL)))))) = 0
   \<and> mc_nocontrol (snd (the (match_search locked_world
        (projr (match_prologue locked_world 1 1 ''#3'' NOTYPE (MAT_POSSESSION OR MAT_CONTROL)))))) = 1
   \<and> match_result_internal locked_world 1 1 ''#3'' NOTYPE (MAT_POSSESSION OR MAT_CONTROL)
        = Some (NOTHING, [])"
  by (simp add: locked_world_def run_defs)

end
